theory Spec2Isabelle
  imports Main "HOL-Library.Word" "HOL-Library.Multiset"
begin

section \<open>hostStats.go: strings and numbers\<close>

text \<open>
  A Go \<^verbatim>\<open>error\<close> is kept as the text its \<^verbatim>\<open>Error()\<close> method gives, which is what
  \<^verbatim>\<open>fmt.Println\<close> prints for it.
\<close>

type_synonym error = string

text \<open>Base-10 rendering, as \<^verbatim>\<open>strconv.FormatInt(i, 10)\<close> and \<^verbatim>\<open>fmt.Println\<close> of an int do it.\<close>

definition digit_char :: "nat \<Rightarrow> char" where
  "digit_char d = ''0123456789'' ! d"

function FormatUint :: "nat \<Rightarrow> string" where
  "FormatUint n =
     (if n < 10 then [digit_char n] else FormatUint (n div 10) @ [digit_char (n mod 10)])"
  by pat_completeness auto
termination
  by (relation "measure id") auto

declare FormatUint.simps [simp del]

definition itoa :: "int \<Rightarrow> string" where
  "itoa i = (if i < 0 then CHR ''-'' # FormatUint (nat (- i)) else FormatUint (nat i))"

definition FormatInt :: "64 word \<Rightarrow> string" where
  "FormatInt i = itoa (sint i)"

section \<open>The record model: \<^verbatim>\<open>hostStat\<close>, \<^verbatim>\<open>Headers\<close>, \<^verbatim>\<open>Slice\<close>\<close>

text \<open>
  The struct \<^verbatim>\<open>hostStat\<close> with its fields in declaration order: \<^verbatim>\<open>int16\<close>, \<^verbatim>\<open>int32\<close>
  and \<^verbatim>\<open>int64\<close> are words of that width, read as two's complement by \<open>sint\<close>.
\<close>

record hostStat =
  Cluster :: string
  Host :: string
  Version :: string
  Build :: string
  Vendor :: string
  Model :: string
  NumCpuPkgs :: "16 word"
  NumCpuCores :: "16 word"
  NumCpuThreads :: "16 word"
  CpuModel :: string
  TotalCPU :: "64 word"
  FreeCPU :: "64 word"
  OverallMemoryUsage :: "64 word"
  MemorySize :: "32 word"
  FreeMemory :: "64 word"

text \<open>
  \<^verbatim>\<open>Headers\<close> walks the fields of a fresh \<^verbatim>\<open>hostStat\<close> by reflection and collects their
  names: the names of the struct's fields in declaration order, whatever the receiver.
\<close>

definition Headers :: "hostStat \<Rightarrow> string list" where
  "Headers r =
     [''Cluster'', ''Host'', ''Version'', ''Build'', ''Vendor'', ''Model'',
      ''NumCpuPkgs'', ''NumCpuCores'', ''NumCpuThreads'', ''CpuModel'',
      ''TotalCPU'', ''FreeCPU'', ''OverallMemoryUsage'', ''MemorySize'', ''FreeMemory'']"

text \<open>
  \<^verbatim>\<open>Slice\<close>. The rendering of a \<^verbatim>\<open>units.ByteSize\<close> (its \<^verbatim>\<open>String\<close> method, which
  \<^verbatim>\<open>Sprintf("%s", _)\<close> calls) belongs to the govmomi library and is a parameter here.
  \<^verbatim>\<open>units.ByteSize\<close> is an \<^verbatim>\<open>int64\<close>: the conversion of the \<^verbatim>\<open>int32\<close> field
  \<^verbatim>\<open>MemorySize\<close> extends the sign, and the product wraps at 64 bits.
\<close>

definition Slice :: "(64 word \<Rightarrow> string) \<Rightarrow> hostStat \<Rightarrow> string list" where
  "Slice ByteSize_String r =
     [Cluster r,
      Host r,
      Version r,
      Build r,
      Vendor r,
      Model r,
      FormatInt (scast (NumCpuPkgs r)),
      FormatInt (scast (NumCpuCores r)),
      FormatInt (scast (NumCpuThreads r)),
      CpuModel r,
      FormatInt (TotalCPU r),
      FormatInt (FreeCPU r),
      ByteSize_String (scast (MemorySize r) * 1024 * 1024),
      ByteSize_String (OverallMemoryUsage r),
      ByteSize_String (FreeMemory r)]"

text \<open>
  The rendered value of the field a header names, for the schema-consistency property:
  the field of that name, rendered by the rule \<^verbatim>\<open>Slice\<close> applies to that field.
\<close>

definition rendered_field :: "(64 word \<Rightarrow> string) \<Rightarrow> hostStat \<Rightarrow> string \<Rightarrow> string option" where
  "rendered_field ByteSize_String r h =
     (if h = ''Cluster'' then Some (Cluster r)
      else if h = ''Host'' then Some (Host r)
      else if h = ''Version'' then Some (Version r)
      else if h = ''Build'' then Some (Build r)
      else if h = ''Vendor'' then Some (Vendor r)
      else if h = ''Model'' then Some (Model r)
      else if h = ''NumCpuPkgs'' then Some (FormatInt (scast (NumCpuPkgs r)))
      else if h = ''NumCpuCores'' then Some (FormatInt (scast (NumCpuCores r)))
      else if h = ''NumCpuThreads'' then Some (FormatInt (scast (NumCpuThreads r)))
      else if h = ''CpuModel'' then Some (CpuModel r)
      else if h = ''TotalCPU'' then Some (FormatInt (TotalCPU r))
      else if h = ''FreeCPU'' then Some (FormatInt (FreeCPU r))
      else if h = ''OverallMemoryUsage'' then Some (ByteSize_String (OverallMemoryUsage r))
      else if h = ''MemorySize'' then Some (ByteSize_String (scast (MemorySize r) * 1024 * 1024))
      else if h = ''FreeMemory'' then Some (ByteSize_String (FreeMemory r))
      else None)"

text \<open>
  A byte-count renderer for concrete runs: the count in base 10 followed by \<open>B\<close>, which is
  what \<^verbatim>\<open>units.ByteSize.String\<close> prints below one kilobyte.
\<close>

definition plain_bytes :: "64 word \<Rightarrow> string" where
  "plain_bytes b = FormatInt b @ ''B''"

section \<open>What a vCenter answers\<close>

text \<open>
  One \<^verbatim>\<open>mo.HostSystem\<close> as \<^verbatim>\<open>Init\<close> reads it. The fields are named by their path in the
  govmomi structure, which declares \<^verbatim>\<open>CpuMhz\<close>, \<^verbatim>\<open>OverallCpuUsage\<close> and
  \<^verbatim>\<open>OverallMemoryUsage\<close> as \<^verbatim>\<open>int32\<close>, the three counts as \<^verbatim>\<open>int16\<close> and the hardware's
  \<^verbatim>\<open>MemorySize\<close> as \<^verbatim>\<open>int64\<close>. \<open>Parent_name\<close> is what \<^verbatim>\<open>pc.RetrieveOne\<close> answers for
  the name of the host's parent: an error, or the cluster's name. Four of the fields
  \<^verbatim>\<open>Init\<close> goes through are pointers, which a vCenter may leave nil: \<^verbatim>\<open>hs.Parent\<close>,
  \<^verbatim>\<open>hs.Summary.Hardware\<close>, \<^verbatim>\<open>hs.Config\<close> and \<^verbatim>\<open>hs.Hardware\<close>. The four flags say which are
  nil; the fields behind a nil pointer are never read.
\<close>

record HostSystem =
  Summary_Config_Name :: string
  Config_Product_Build :: string
  Config_Product_Version :: string
  Hardware_SystemInfo_Model :: string
  Hardware_SystemInfo_Vendor :: string
  Summary_Hardware_CpuMhz :: "32 word"
  Summary_Hardware_NumCpuPkgs :: "16 word"
  Summary_Hardware_NumCpuCores :: "16 word"
  Summary_Hardware_NumCpuThreads :: "16 word"
  Summary_Hardware_CpuModel :: string
  Summary_Hardware_MemorySize :: "64 word"
  Summary_QuickStats_OverallCpuUsage :: "32 word"
  Summary_QuickStats_OverallMemoryUsage :: "32 word"
  Parent_name :: "error + string"
  Parent_nil :: bool
  Summary_Hardware_nil :: bool
  Config_nil :: bool
  Hardware_nil :: bool

text \<open>The body of the loop of \<^verbatim>\<open>Init\<close>: the \<^verbatim>\<open>hostStat\<close> built for one host.\<close>

definition stats :: "string \<Rightarrow> HostSystem \<Rightarrow> hostStat" where
  "stats cluster_Name hs =
     (let totalCPU = (scast (Summary_Hardware_CpuMhz hs) :: 64 word)
                       * scast (Summary_Hardware_NumCpuCores hs);
          freeCPU = totalCPU - scast (Summary_QuickStats_OverallCpuUsage hs);
          freeMemory = Summary_Hardware_MemorySize hs
                         - scast (Summary_QuickStats_OverallMemoryUsage hs) * 1024 * 1024
      in \<lparr>Cluster = cluster_Name,
          Host = Summary_Config_Name hs,
          Version = Config_Product_Version hs,
          Build = Config_Product_Build hs,
          Vendor = Hardware_SystemInfo_Vendor hs,
          Model = Hardware_SystemInfo_Model hs,
          NumCpuPkgs = Summary_Hardware_NumCpuPkgs hs,
          NumCpuCores = Summary_Hardware_NumCpuCores hs,
          NumCpuThreads = Summary_Hardware_NumCpuThreads hs,
          CpuModel = Summary_Hardware_CpuModel hs,
          TotalCPU = totalCPU,
          FreeCPU = freeCPU,
          OverallMemoryUsage = Summary_Hardware_MemorySize hs,
          MemorySize = Summary_QuickStats_OverallMemoryUsage hs,
          FreeMemory = freeMemory\<rparr>)"

text \<open>
  A \<^verbatim>\<open>govmomi.Client\<close>, the session handle \<^verbatim>\<open>Connect\<close> stores: what the vCenter behind
  it answers to the calls \<^verbatim>\<open>Init\<close> and \<^verbatim>\<open>Disconnect\<close> make on it.
\<close>

record Client =
  CreateContainerView_err :: "error option"
  Retrieve_result :: "error + HostSystem list"
  Logout_err :: "error option"

section \<open>Configuration and the world outside the program\<close>

record VCenter =
  Hostname :: string
  Username :: string
  Password :: string
  client :: "Client option"
  Data :: "string list list"
  Worker :: int

record Configuration =
  Outpath :: string
  VCenters :: "VCenter list"

text \<open>
  Everything the program gets from outside: the result of opening and decoding
  \<^verbatim>\<open>config.json\<close> (the error, and the \<^verbatim>\<open>Configuration\<close> as the decoder leaves it; its
  \<^verbatim>\<open>VCenters\<close> are the objects the slice points to, none of them nil), the library functions
  \<^verbatim>\<open>units.ByteSize.String\<close> and \<^verbatim>\<open>url.Parse\<close>, the answer of the network to
  \<^verbatim>\<open>govmomi.NewClient\<close> for the job with a given \<^verbatim>\<open>Worker\<close> index and URL, and the file
  system under the output path: the file as it is before the run (\<open>None\<close> when there is
  none), the result of \<^verbatim>\<open>os.Create\<close>, of writing the header and whether the header stays
  in the writer's buffer, the result of \<^verbatim>\<open>os.OpenFile\<close> in the \<open>k\<close>-th call of \<^verbatim>\<open>csvExport\<close>,
  of \<^verbatim>\<open>writer.Write\<close> for row \<open>i\<close> of that call, and the number of rows buffered in that
  call that never reach the file.
\<close>

record env =
  Open_err :: "error option"
  Decode_result :: "error option \<times> Configuration"
  ByteSize_String :: "64 word \<Rightarrow> string"
  url_Parse_err :: "string \<Rightarrow> error option"
  NewClient :: "int \<Rightarrow> string \<Rightarrow> error + Client"
  file0 :: "string list list option"
  Create_err :: "string \<Rightarrow> error option"
  Header_Write_err :: "error option"
  Header_unflushed :: bool
  OpenFile_err :: "nat \<Rightarrow> string \<Rightarrow> error option"
  Write_err :: "nat \<Rightarrow> nat \<Rightarrow> error option"
  Unflushed :: "nat \<Rightarrow> nat"

text \<open>
  What a run does that can be seen from outside: a line on standard output (the operands
  of \<^verbatim>\<open>fmt.Println\<close>, which prints them separated by spaces), \<^verbatim>\<open>log.Fatal\<close>, a panic, and a
  call that goes to a vCenter, with the operation and the \<^verbatim>\<open>Hostname\<close> of the job.
\<close>

datatype event =
    Println "string list"
  | Log_Fatal error
  | Panic
  | Call string string

text \<open>A function either returns or ends the process with an exit status.\<close>

datatype 'a outcome = Returns 'a | Exits int

section \<open>\<^verbatim>\<open>Connect\<close>, \<^verbatim>\<open>Disconnect\<close>, \<^verbatim>\<open>Init\<close>\<close>

definition Connect :: "env \<Rightarrow> VCenter \<Rightarrow> error option \<times> VCenter \<times> event list" where
  "Connect E vcenter =
     (let p = Println [''Worker'', itoa (Worker vcenter), '': Connecting to vcenter:'',
                       Hostname vcenter];
          u = ''https://'' @ Username vcenter @ '':'' @ Password vcenter @ ''@''
                @ Hostname vcenter @ ''/sdk''
      in case url_Parse_err E u of
           Some err \<Rightarrow>
             (Some err, vcenter,
              [p,
               Println [''Worker'', itoa (Worker vcenter), '': Could not parse vcenter url:'',
                        Hostname vcenter],
               Println [''Error:'', err]])
         | None \<Rightarrow>
             (case NewClient E (Worker vcenter) u of
                Inl err \<Rightarrow>
                  (Some err, vcenter,
                   [p, Call ''NewClient'' (Hostname vcenter),
                    Println [''Worker'', itoa (Worker vcenter), '': Could not connect to vcenter:'',
                             Hostname vcenter],
                    Println [''Error:'', err]])
              | Inr c \<Rightarrow>
                  (None, vcenter\<lparr>client := Some c\<rparr>,
                   [p, Call ''NewClient'' (Hostname vcenter)])))"

definition Disconnect :: "VCenter \<Rightarrow> error option \<times> event list" where
  "Disconnect vcenter =
     (case client vcenter of
        None \<Rightarrow> (None, [])
      | Some c \<Rightarrow>
          (case Logout_err c of
             Some err \<Rightarrow>
               (Some err,
                [Call ''Logout'' (Hostname vcenter),
                 Println [''Worker'', itoa (Worker vcenter),
                          '': Could not disconnect properly from vcenter:'',
                          Hostname vcenter, err]])
           | None \<Rightarrow> (None, [Call ''Logout'' (Hostname vcenter)])))"

text \<open>
  The loop of \<^verbatim>\<open>Init\<close> over the hosts: how it ends, the rows appended to \<^verbatim>\<open>vcenter.Data\<close>
  so far, and what it did. \<^verbatim>\<open>*hs.Parent\<close> is evaluated before \<^verbatim>\<open>RetrieveOne\<close> is called, and
  the other three pointers are followed after it, while the record is built: a nil pointer
  there is a panic. A panic runs the deferred \<^verbatim>\<open>v.Destroy\<close> and ends the process with
  status 2; \<^verbatim>\<open>log.Fatal\<close> prints the error and calls \<^verbatim>\<open>os.Exit(1)\<close>, which runs no deferred
  call.
\<close>

fun Init_hosts ::
  "(64 word \<Rightarrow> string) \<Rightarrow> string \<Rightarrow> HostSystem list \<Rightarrow> string list list
     \<Rightarrow> unit outcome \<times> string list list \<times> event list" where
  "Init_hosts bs h [] data = (Returns (), data, [])"
| "Init_hosts bs h (hs # hss) data =
     (if Parent_nil hs then (Exits 2, data, [Panic, Call ''Destroy'' h])
      else case Parent_name hs of
             Inl err \<Rightarrow> (Exits 1, data, [Call ''RetrieveOne'' h, Log_Fatal err])
           | Inr cluster_Name \<Rightarrow>
               if Summary_Hardware_nil hs \<or> Config_nil hs \<or> Hardware_nil hs
               then (Exits 2, data, [Call ''RetrieveOne'' h, Panic, Call ''Destroy'' h])
               else (case Init_hosts bs h hss (data @ [Slice bs (stats cluster_Name hs)]) of
                       (r, data', evs) \<Rightarrow> (r, data', Call ''RetrieveOne'' h # evs)))"

text \<open>
  \<^verbatim>\<open>Init\<close>. A nil \<^verbatim>\<open>client\<close> is dereferenced before the view exists: a panic. On the normal
  return the deferred \<^verbatim>\<open>v.Destroy\<close> runs.
\<close>

definition Init :: "env \<Rightarrow> VCenter \<Rightarrow> error option outcome \<times> VCenter \<times> event list" where
  "Init E vcenter =
     (let p = Println [''Worker'', itoa (Worker vcenter), '': Collecting data''];
          h = Hostname vcenter
      in case client vcenter of
           None \<Rightarrow> (Exits 2, vcenter, [p, Panic])
         | Some c \<Rightarrow>
             (case CreateContainerView_err c of
                Some err \<Rightarrow>
                  (Exits 1, vcenter, [p, Call ''CreateContainerView'' h, Log_Fatal err])
              | None \<Rightarrow>
                  (case Retrieve_result c of
                     Inl err \<Rightarrow>
                       (Exits 1, vcenter,
                        [p, Call ''CreateContainerView'' h, Call ''Retrieve'' h, Log_Fatal err])
                   | Inr hss \<Rightarrow>
                       (case Init_hosts (ByteSize_String E) h hss (Data vcenter) of
                          (Exits c, data, evs) \<Rightarrow>
                            (Exits c, vcenter\<lparr>Data := data\<rparr>,
                             [p, Call ''CreateContainerView'' h, Call ''Retrieve'' h] @ evs)
                        | (Returns u, data, evs) \<Rightarrow>
                            (Returns None, vcenter\<lparr>Data := data\<rparr>,
                             [p, Call ''CreateContainerView'' h, Call ''Retrieve'' h] @ evs
                               @ [Call ''Destroy'' h])))))"

section \<open>The sink: \<^verbatim>\<open>newCsv\<close> and \<^verbatim>\<open>csvExport\<close>\<close>

text \<open>
  The output file is the list of its rows. A \<^verbatim>\<open>csv.Writer\<close> buffers: a row whose \<^verbatim>\<open>Write\<close>
  returns nil is in the buffer, and the buffer reaches the file by the flushes \<^verbatim>\<open>Write\<close>
  makes when it is full and by the deferred \<^verbatim>\<open>Flush\<close>, whose failure nobody sees. Of the
  rows buffered, the last \<open>Unflushed\<close> are lost; the others are in the file when it is
  closed. \<^verbatim>\<open>newCsv\<close> returns the error of \<^verbatim>\<open>os.Create\<close> and drops the error of writing the
  header.
\<close>

definition newCsv ::
  "env \<Rightarrow> string list \<Rightarrow> string \<Rightarrow> string list list option
     \<Rightarrow> error option \<times> string list list option" where
  "newCsv E headers path f =
     (case Create_err E path of
        Some err \<Rightarrow> (Some err, f)
      | None \<Rightarrow>
          (case Header_Write_err E of
             Some err \<Rightarrow> (None, Some [])
           | None \<Rightarrow> (None, Some (if Header_unflushed E then [] else [headers]))))"

text \<open>
  The loop of \<^verbatim>\<open>csvExport\<close>: the rows buffered, and the error of the \<^verbatim>\<open>Write\<close> at which it
  returns, if one fails.
\<close>

fun write_rows ::
  "(nat \<Rightarrow> error option) \<Rightarrow> nat \<Rightarrow> string list list \<Rightarrow> string list list
     \<Rightarrow> error option \<times> string list list" where
  "write_rows werr i [] buffered = (None, buffered)"
| "write_rows werr i (v # vs) buffered =
     (case werr i of
        Some err \<Rightarrow> (Some err, buffered)
      | None \<Rightarrow> write_rows werr (Suc i) vs (buffered @ [v]))"

definition csvExport ::
  "env \<Rightarrow> nat \<Rightarrow> string list list \<Rightarrow> string \<Rightarrow> string list list option
     \<Rightarrow> error option \<times> string list list option" where
  "csvExport E k data path f =
     (case OpenFile_err E k path of
        Some err \<Rightarrow> (Some err, f)
      | None \<Rightarrow>
          (case write_rows (Write_err E k) 0 data [] of
             (r, buffered) \<Rightarrow>
               (r, Some ((case f of None \<Rightarrow> [] | Some rows \<Rightarrow> rows)
                           @ take (length buffered - Unflushed E k) buffered))))"

section \<open>\<^verbatim>\<open>main\<close> and the workers\<close>

text \<open>
  The goroutines as threads that take turns: \<^verbatim>\<open>main\<close> and one worker per \<^verbatim>\<open>go worker\<close>
  statement. A thread's place in its code:
  \<^item> \<^verbatim>\<open>main\<close>: in the loop that sets \<^verbatim>\<open>Worker\<close> and starts the workers, in the loop that
    sends the jobs (it closes the channel when the loop ends), waiting for the \<open>k\<close>-th
    token of \<^verbatim>\<open>done\<close>, in the export loop, or returned;
  \<^item> a worker: at the head of its \<^verbatim>\<open>range\<close> loop, about to call \<^verbatim>\<open>Connect\<close>, \<^verbatim>\<open>Init\<close> or
    \<^verbatim>\<open>Disconnect\<close> on the job it holds, about to send on \<^verbatim>\<open>done\<close> for it, or returned.
  A job is the index of its \<^verbatim>\<open>*VCenter\<close> in \<^verbatim>\<open>config.VCenters\<close>.
  A call of \<^verbatim>\<open>Connect\<close>, \<^verbatim>\<open>Init\<close> or \<^verbatim>\<open>Disconnect\<close> is one turn. Each reads and writes the
  \<^verbatim>\<open>VCenter\<close> of the job its worker holds and nothing else of the process, so a finer
  interleaving changes the order of the lines on standard output at most.
\<close>

datatype tid = Main | Worker_thread nat

datatype mpc = Spawn nat | Send nat | Wait nat | Export nat | Finished

datatype wpc = Recv | AtConnect nat | AtInit nat | AtDisconnect nat | AtSignal nat | Returned

text \<open>
  The state of the process: the \<^verbatim>\<open>VCenter\<close> objects, the two channels (the queue of jobs
  and whether it is closed; the number of tokens in \<^verbatim>\<open>done\<close>), the threads, what has been
  printed and called so far, the output file and the exit status once the process has
  ended. \<open>signalled\<close> records the jobs for which \<^verbatim>\<open>done <- true\<close> was executed, in that
  order.
\<close>

record state =
  vcs :: "VCenter list"
  ch_vcenters :: "nat list"
  closed :: bool
  ch_done :: nat
  workers :: "wpc list"
  main_pc :: mpc
  out :: "event list"
  csv_file :: "string list list option"
  exit_status :: "int option"
  signalled :: "nat list"

definition config :: "env \<Rightarrow> Configuration" where
  "config E = snd (Decode_result E)"

definition vcenterCount :: "env \<Rightarrow> nat" where
  "vcenterCount E = length (VCenters (config E))"

text \<open>The zero value of \<^verbatim>\<open>hostStat\<close>, as \<^verbatim>\<open>var Data hostStat\<close> declares it.\<close>

definition zero_hostStat :: hostStat where
  "zero_hostStat =
     \<lparr>Cluster = [], Host = [], Version = [], Build = [], Vendor = [], Model = [],
      NumCpuPkgs = 0, NumCpuCores = 0, NumCpuThreads = 0, CpuModel = [],
      TotalCPU = 0, FreeCPU = 0, OverallMemoryUsage = 0, MemorySize = 0, FreeMemory = 0\<rparr>"

text \<open>
  \<^verbatim>\<open>main\<close> up to its first loop: it reads the configuration, prints a line for each
  failure and goes on, and calls \<^verbatim>\<open>newCsv\<close>, whose result it drops.
\<close>

definition main_start :: "env \<Rightarrow> state" where
  "main_start E =
     \<lparr>vcs = VCenters (config E),
      ch_vcenters = [],
      closed = False,
      ch_done = 0,
      workers = [],
      main_pc = Spawn 0,
      out = (case Open_err E of
               Some err \<Rightarrow> [Println [''Could not open configuration file'', ''config.json'']]
             | None \<Rightarrow> [])
            @ (case fst (Decode_result E) of
                 Some err \<Rightarrow> [Println [''Could not decode configuration file'', ''config.json'']]
               | None \<Rightarrow> [])
            @ [Println [''Main :'', itoa (int (vcenterCount E)),
                        ''vcenters to collect data from in config''],
               Println [''Main : Submitting job to workers'']],
      csv_file = snd (newCsv E (Headers zero_hostStat) (Outpath (config E)) (file0 E)),
      exit_status = None,
      signalled = []\<rparr>"

text \<open>
  One turn of \<^verbatim>\<open>main\<close>; \<open>None\<close> when it cannot move (it waits for a token and \<^verbatim>\<open>done\<close> is
  empty, or it has returned). The channel \<^verbatim>\<open>vcenters\<close> has room for every job, so a send
  on it never waits. Returning from \<^verbatim>\<open>main\<close> ends the process with status 0. The result
  of \<^verbatim>\<open>csvExport\<close> is dropped.
\<close>

definition main_step :: "env \<Rightarrow> state \<Rightarrow> state option" where
  "main_step E s =
     (case main_pc s of
        Spawn i \<Rightarrow>
          if i < length (vcs s)
          then Some (s\<lparr>vcs := (vcs s)[i := (vcs s ! i)\<lparr>Worker := int i\<rparr>],
                       workers := workers s @ [Recv],
                       main_pc := Spawn (Suc i)\<rparr>)
          else Some (s\<lparr>main_pc := Send 0\<rparr>)
      | Send i \<Rightarrow>
          if i < length (vcs s)
          then Some (s\<lparr>ch_vcenters := ch_vcenters s @ [i], main_pc := Send (Suc i)\<rparr>)
          else Some (s\<lparr>closed := True, main_pc := Wait 0\<rparr>)
      | Wait k \<Rightarrow>
          if k < length (vcs s)
          then (if 0 < ch_done s
                then Some (s\<lparr>ch_done := ch_done s - 1, main_pc := Wait (Suc k)\<rparr>)
                else None)
          else Some (s\<lparr>out := out s @ [Println [''Main : merging results...'']],
                       main_pc := Export 0\<rparr>)
      | Export i \<Rightarrow>
          if i < length (vcs s)
          then (let vcenter = vcs s ! i
                in Some (s\<lparr>out := out s @
                              [Println [''Main : worker'', itoa (Worker vcenter), ''got'',
                                        itoa (int (length (Data vcenter))), ''results from'',
                                        Hostname vcenter]],
                            csv_file := snd (csvExport E i (Data vcenter) (Outpath (config E))
                                               (csv_file s)),
                            main_pc := Export (Suc i)\<rparr>))
          else Some (s\<lparr>out := out s @
                           [Println [''Main : Results saved to'', Outpath (config E)]],
                       main_pc := Finished,
                       exit_status := Some 0\<rparr>)
      | Finished \<Rightarrow> None)"

text \<open>
  One turn of the worker \<open>wid\<close> (its \<^verbatim>\<open>id\<close>); \<open>None\<close> when it cannot move (it waits for a job on an open,
  empty channel, or for room in \<^verbatim>\<open>done\<close>, or it has returned).
\<close>

definition worker_step :: "env \<Rightarrow> nat \<Rightarrow> state \<Rightarrow> state option" where
  "worker_step E wid s =
     (case workers s ! wid of
        Recv \<Rightarrow>
          (case ch_vcenters s of
             j # q \<Rightarrow>
               Some (s\<lparr>ch_vcenters := q,
                       workers := (workers s)[wid := AtConnect j],
                       out := out s @
                         [Println [''Worker'', itoa (int wid), '': Received vcenter job'',
                                   Hostname (vcs s ! j)]]\<rparr>)
           | [] \<Rightarrow> if closed s then Some (s\<lparr>workers := (workers s)[wid := Returned]\<rparr>) else None)
      | AtConnect j \<Rightarrow>
          (case Connect E (vcs s ! j) of
             (Some err, vcenter, evs) \<Rightarrow>
               Some (s\<lparr>vcs := (vcs s)[j := vcenter],
                       out := out s @ evs @
                         [Println [''Worker'', itoa (int wid),
                                   '': Could not initialize connection to vcenter'',
                                   Hostname vcenter, err]],
                       workers := (workers s)[wid := AtSignal j]\<rparr>)
           | (None, vcenter, evs) \<Rightarrow>
               Some (s\<lparr>vcs := (vcs s)[j := vcenter],
                       out := out s @ evs,
                       workers := (workers s)[wid := AtInit j]\<rparr>))
      | AtInit j \<Rightarrow>
          (case Init E (vcs s ! j) of
             (Exits c, vcenter, evs) \<Rightarrow>
               Some (s\<lparr>vcs := (vcs s)[j := vcenter],
                       out := out s @ evs,
                       exit_status := Some c\<rparr>)
           | (Returns err, vcenter, evs) \<Rightarrow>
               Some (s\<lparr>vcs := (vcs s)[j := vcenter],
                       out := out s @ evs @
                         (if err = None
                          then [Println [''Worker'', itoa (int wid), '': Done'', Hostname vcenter]]
                          else []),
                       workers := (workers s)[wid := AtDisconnect j]\<rparr>))
      | AtDisconnect j \<Rightarrow>
          (case Disconnect (vcs s ! j) of
             (err, evs) \<Rightarrow>
               Some (s\<lparr>out := out s @ evs, workers := (workers s)[wid := AtSignal j]\<rparr>))
      | AtSignal j \<Rightarrow>
          if ch_done s < length (vcs s)
          then Some (s\<lparr>ch_done := Suc (ch_done s),
                       signalled := signalled s @ [j],
                       workers := (workers s)[wid := Recv]\<rparr>)
          else None
      | Returned \<Rightarrow> None)"

text \<open>A turn of a thread: nothing moves once the process has ended.\<close>

definition step :: "env \<Rightarrow> tid \<Rightarrow> state \<Rightarrow> state option" where
  "step E t s =
     (if exit_status s \<noteq> None then None
      else case t of
             Main \<Rightarrow> main_step E s
           | Worker_thread wid \<Rightarrow> if wid < length (workers s) then worker_step E wid s else None)"

text \<open>
  A run under a schedule, the list of the threads in the order they take their turns:
  \<open>None\<close> when the schedule asks a thread to move that cannot.
\<close>

fun run :: "env \<Rightarrow> tid list \<Rightarrow> state \<Rightarrow> state option" where
  "run E [] s = Some s"
| "run E (t # ts) s = (case step E t s of None \<Rightarrow> None | Some s' \<Rightarrow> run E ts s')"

text \<open>
  What the session of one job does to its \<^verbatim>\<open>VCenter\<close>, as the body of the worker's loop
  calls \<^verbatim>\<open>Connect\<close> and \<^verbatim>\<open>Init\<close>: the job ends, or it ends the process.
\<close>

definition session :: "env \<Rightarrow> VCenter \<Rightarrow> VCenter outcome" where
  "session E vcenter =
     (case Connect E vcenter of
        (Some err, vcenter', evs) \<Rightarrow> Returns vcenter'
      | (None, vcenter', evs) \<Rightarrow>
          (case Init E vcenter' of
             (Exits c, vcenter'', evs') \<Rightarrow> Exits c
           | (Returns err, vcenter'', evs') \<Rightarrow> Returns vcenter''))"

text \<open>The job \<open>j\<close> as \<^verbatim>\<open>main\<close> sends it: the \<open>j\<close>-th configured \<^verbatim>\<open>VCenter\<close> with \<^verbatim>\<open>Worker = j\<close>.\<close>

definition job :: "env \<Rightarrow> nat \<Rightarrow> VCenter" where
  "job E j = (VCenters (config E) ! j)\<lparr>Worker := int j\<rparr>"

text \<open>The rows the job \<open>j\<close> holds when its session has ended.\<close>

definition job_rows :: "env \<Rightarrow> nat \<Rightarrow> string list list" where
  "job_rows E j = (case session E (job E j) of Returns vcenter \<Rightarrow> Data vcenter | Exits c \<Rightarrow> [])"

text \<open>The output file after the first \<open>i\<close> calls of \<^verbatim>\<open>csvExport\<close> in the export loop.\<close>

fun exported :: "env \<Rightarrow> nat \<Rightarrow> string list list option" where
  "exported E 0 = snd (newCsv E (Headers zero_hostStat) (Outpath (config E)) (file0 E))"
| "exported E (Suc i) =
     snd (csvExport E i (job_rows E i) (Outpath (config E)) (exported E i))"

section \<open>What holds in every state a run reaches\<close>

text \<open>
  Where the jobs are. A job is not yet sent by \<^verbatim>\<open>main\<close>, in the channel, held by a worker,
  or signalled; \<open>all_jobs\<close> lists them in that order, and \<open>received\<close> is the number of
  tokens \<^verbatim>\<open>main\<close> has taken from \<^verbatim>\<open>done\<close>.
\<close>

fun unsent :: "nat \<Rightarrow> mpc \<Rightarrow> nat list" where
  "unsent n (Spawn i) = [0..<n]"
| "unsent n (Send i) = [i..<n]"
| "unsent n (Wait k) = []"
| "unsent n (Export i) = []"
| "unsent n Finished = []"

fun holds :: "wpc \<Rightarrow> nat list" where
  "holds Recv = []"
| "holds (AtConnect j) = [j]"
| "holds (AtInit j) = [j]"
| "holds (AtDisconnect j) = [j]"
| "holds (AtSignal j) = [j]"
| "holds Returned = []"

definition held :: "wpc list \<Rightarrow> nat list" where
  "held ws = concat (map holds ws)"

fun received :: "nat \<Rightarrow> mpc \<Rightarrow> nat" where
  "received n (Spawn i) = 0"
| "received n (Send i) = 0"
| "received n (Wait k) = k"
| "received n (Export i) = n"
| "received n Finished = n"

fun spawning :: "mpc \<Rightarrow> bool" where
  "spawning (Spawn i) = True"
| "spawning (Send i) = False"
| "spawning (Wait k) = False"
| "spawning (Export i) = False"
| "spawning Finished = False"

definition all_jobs :: "env \<Rightarrow> state \<Rightarrow> nat list" where
  "all_jobs E s =
     unsent (vcenterCount E) (main_pc s) @ ch_vcenters s @ held (workers s) @ signalled s"

text \<open>
  What \<^verbatim>\<open>main\<close> has done at each place of its code. While it starts the workers nothing
  else can move: the workers wait on the empty, open channel. The output file is what the
  export loop has made of it so far.
\<close>

fun main_ok :: "env \<Rightarrow> state \<Rightarrow> mpc \<Rightarrow> bool" where
  "main_ok E s (Spawn i) =
     (i \<le> vcenterCount E \<and> workers s = replicate i Recv \<and> ch_vcenters s = [] \<and> \<not> closed s
      \<and> signalled s = [] \<and> ch_done s = 0 \<and> csv_file s = exported E 0
      \<and> vcs s = map (job E) [0..<i] @ drop i (VCenters (config E)))"
| "main_ok E s (Send i) = (i \<le> vcenterCount E \<and> csv_file s = exported E 0)"
| "main_ok E s (Wait k) = (k \<le> vcenterCount E \<and> csv_file s = exported E 0)"
| "main_ok E s (Export i) = (i \<le> vcenterCount E \<and> csv_file s = exported E i)"
| "main_ok E s Finished = (csv_file s = exported E (vcenterCount E))"

text \<open>
  What the job of a worker is at each place of the worker's code: as \<^verbatim>\<open>main\<close> sent it
  before \<^verbatim>\<open>Connect\<close>, connected before \<^verbatim>\<open>Init\<close> (as long as the process lives: \<^verbatim>\<open>Init\<close> may
  have added rows when it ends the process), and as its session returned it afterwards.
\<close>

fun worker_ok :: "env \<Rightarrow> VCenter list \<Rightarrow> bool \<Rightarrow> wpc \<Rightarrow> bool" where
  "worker_ok E vs live Recv = True"
| "worker_ok E vs live (AtConnect j) = (vs ! j = job E j)"
| "worker_ok E vs live (AtInit j) =
     (fst (Connect E (job E j)) = None \<and> (live \<longrightarrow> vs ! j = fst (snd (Connect E (job E j)))))"
| "worker_ok E vs live (AtDisconnect j) =
     (fst (Connect E (job E j)) = None \<and> session E (job E j) = Returns (vs ! j))"
| "worker_ok E vs live (AtSignal j) = (session E (job E j) = Returns (vs ! j))"
| "worker_ok E vs live Returned = True"

text \<open>
  The invariant: every job is at exactly one place; the tokens in \<^verbatim>\<open>done\<close> and those
  \<^verbatim>\<open>main\<close> has taken are the signals sent; jobs not yet received are as \<^verbatim>\<open>main\<close> sent them,
  jobs that have signalled are as their session returned them; and a process that has
  ended before \<^verbatim>\<open>main\<close> returned was ended by the \<^verbatim>\<open>Init\<close> of some job.
\<close>

definition invariant :: "env \<Rightarrow> state \<Rightarrow> bool" where
  "invariant E s \<longleftrightarrow>
     length (vcs s) = vcenterCount E
     \<and> mset (all_jobs E s) = mset [0..<vcenterCount E]
     \<and> ch_done s + received (vcenterCount E) (main_pc s) = length (signalled s)
     \<and> main_ok E s (main_pc s)
     \<and> (\<not> spawning (main_pc s) \<longrightarrow>
          (\<forall>j \<in> set (unsent (vcenterCount E) (main_pc s)) \<union> set (ch_vcenters s).
             vcs s ! j = job E j))
     \<and> (\<forall>w < length (workers s). worker_ok E (vcs s) (exit_status s = None) (workers s ! w))
     \<and> (\<forall>j \<in> set (signalled s). session E (job E j) = Returns (vcs s ! j))
     \<and> (exit_status s \<noteq> None \<and> main_pc s \<noteq> Finished \<longrightarrow>
          (\<exists>w < length (workers s). \<exists>j c. workers s ! w = AtInit j
              \<and> session E (job E j) = Exits c \<and> exit_status s = Some c))"

text \<open>\<^verbatim>\<open>main\<close> is in its export loop or past it.\<close>

fun exporting :: "mpc \<Rightarrow> bool" where
  "exporting (Spawn i) = False"
| "exporting (Send i) = False"
| "exporting (Wait k) = False"
| "exporting (Export i) = True"
| "exporting Finished = True"




section \<open>Concrete configurations\<close>

text \<open>
  A host with 8 cores at 2500 MHz of which 5000 MHz are used, and 8 GiB of memory of
  which 1024 MB are used; the row \<^verbatim>\<open>Slice\<close> makes of it with \<open>plain_bytes\<close>; vCenters that
  answer with such hosts, one of them failing the cluster lookup of its third host; the
  configurations and schedules of the concrete runs below.
\<close>

definition host1 :: HostSystem where
  "host1 =
     \<lparr>Summary_Config_Name = ''esx1'', Config_Product_Build = ''20328353'',
      Config_Product_Version = ''7.0.3'', Hardware_SystemInfo_Model = ''R740'',
      Hardware_SystemInfo_Vendor = ''Dell'', Summary_Hardware_CpuMhz = 2500,
      Summary_Hardware_NumCpuPkgs = 2, Summary_Hardware_NumCpuCores = 8,
      Summary_Hardware_NumCpuThreads = 16, Summary_Hardware_CpuModel = ''Xeon'',
      Summary_Hardware_MemorySize = 8589934592, Summary_QuickStats_OverallCpuUsage = 5000,
      Summary_QuickStats_OverallMemoryUsage = 1024, Parent_name = Inr ''prod'',
      Parent_nil = False, Summary_Hardware_nil = False, Config_nil = False,
      Hardware_nil = False\<rparr>"

definition row1 :: "string \<Rightarrow> string list" where
  "row1 h = [''prod'', h, ''7.0.3'', ''20328353'', ''Dell'', ''R740'', ''2'', ''8'', ''16'',
             ''Xeon'', ''20000'', ''15000'', ''1073741824B'', ''8589934592B'', ''7516192768B'']"

definition clientA :: Client where
  "clientA = \<lparr>CreateContainerView_err = None, Retrieve_result = Inr [host1], Logout_err = None\<rparr>"

definition clientB :: Client where
  "clientB =
     \<lparr>CreateContainerView_err = None,
      Retrieve_result = Inr [host1\<lparr>Summary_Config_Name := ''esx2''\<rparr>],
      Logout_err = None\<rparr>"

definition clientB_lost :: Client where
  "clientB_lost =
     \<lparr>CreateContainerView_err = None,
      Retrieve_result =
        Inr [host1\<lparr>Summary_Config_Name := ''esx2''\<rparr>, host1\<lparr>Summary_Config_Name := ''esx3''\<rparr>,
             host1\<lparr>Summary_Config_Name := ''esx4'', Parent_name := Inl ''lookup failed''\<rparr>],
      Logout_err = None\<rparr>"

definition endpoint :: "string \<Rightarrow> VCenter" where
  "endpoint h =
     \<lparr>Hostname = h, Username = ''u'', Password = ''p'', client = None, Data = [], Worker = 0\<rparr>"

definition E_ok :: env where
  "E_ok =
     \<lparr>Open_err = None,
      Decode_result = (None, \<lparr>Outpath = ''out.csv'', VCenters = [endpoint ''a'', endpoint ''b'']\<rparr>),
      ByteSize_String = plain_bytes,
      url_Parse_err = (\<lambda>u. None),
      NewClient = (\<lambda>w u. if w = 0 then Inr clientA else Inr clientB),
      file0 = None,
      Create_err = (\<lambda>p. None),
      Header_Write_err = None,
      Header_unflushed = False,
      OpenFile_err = (\<lambda>k p. None),
      Write_err = (\<lambda>k i. None),
      Unflushed = (\<lambda>k. 0)\<rparr>"

definition E_lost :: env where
  "E_lost = E_ok\<lparr>NewClient := (\<lambda>w u. if w = 0 then Inr clientA else Inr clientB_lost)\<rparr>"

definition E_refused :: env where
  "E_refused = E_ok\<lparr>NewClient := (\<lambda>w u. if w = 0 then Inl ''connection refused'' else Inr clientB)\<rparr>"

text \<open>
  As \<open>E_refused\<close>, with a configuration whose first entry brings rows of its own: \<^verbatim>\<open>Data\<close> is
  an exported field of \<^verbatim>\<open>VCenter\<close>, so the decoder fills it from a \<^verbatim>\<open>"Data"\<close> key.
\<close>

definition E_preset :: env where
  "E_preset =
     E_refused\<lparr>Decode_result :=
       (None, \<lparr>Outpath = ''out.csv'',
               VCenters = [(endpoint ''a'')\<lparr>Data := [[''x'', ''y'']]\<rparr>, endpoint ''b'']\<rparr>)\<rparr>"

definition sched_ba :: "tid list" where
  "sched_ba =
     [Main, Main, Main, Main, Main, Main,
      Worker_thread 0, Worker_thread 1,
      Worker_thread 1, Worker_thread 1, Worker_thread 1, Worker_thread 1,
      Worker_thread 0, Worker_thread 0, Worker_thread 0, Worker_thread 0,
      Main, Main, Main, Main, Main, Main]"

definition sched_lost :: "tid list" where
  "sched_lost =
     [Main, Main, Main, Main, Main, Main,
      Worker_thread 0, Worker_thread 0, Worker_thread 0, Worker_thread 0, Worker_thread 0,
      Main,
      Worker_thread 1, Worker_thread 1, Worker_thread 1]"

definition sched_refused :: "tid list" where
  "sched_refused =
     [Main, Main, Main, Main, Main, Main,
      Worker_thread 0, Worker_thread 0, Worker_thread 0,
      Worker_thread 1, Worker_thread 1, Worker_thread 1, Worker_thread 1, Worker_thread 1,
      Main, Main, Main, Main, Main, Main]"

definition E_readonly :: env where
  "E_readonly =
     E_ok\<lparr>Create_err := (\<lambda>p. Some ''open out.csv: permission denied''),
          OpenFile_err := (\<lambda>k p. Some ''open out.csv: permission denied'')\<rparr>"

definition E_noconfig :: env where
  "E_noconfig =
     E_ok\<lparr>Open_err := Some ''open config.json: no such file or directory'',
          Decode_result := (Some ''invalid argument'', \<lparr>Outpath = [], VCenters = []\<rparr>),
          Create_err := (\<lambda>p. Some ''open : no such file or directory'')\<rparr>"

definition E_badconfig :: env where
  "E_badconfig =
     E_ok\<lparr>Decode_result :=
            (Some ''json: cannot unmarshal number into Go struct field Configuration.Outpath of type string'',
             \<lparr>Outpath = [], VCenters = [endpoint ''a'']\<rparr>),
          Create_err := (\<lambda>p. Some ''open : no such file or directory'')\<rparr>"

definition sched_main_only :: "tid list" where
  "sched_main_only = [Main, Main, Main, Main]"

definition sched_first_connect :: "tid list" where
  "sched_first_connect = [Main, Main, Main, Main, Worker_thread 0, Worker_thread 0]"

definition swapped_sample :: hostStat where
  "swapped_sample =
     \<lparr>Cluster = ''prod'', Host = ''esx1'', Version = ''7.0.3'', Build = ''20328353'',
      Vendor = ''Dell'', Model = ''R740'', NumCpuPkgs = 2, NumCpuCores = 8, NumCpuThreads = 16,
      CpuModel = ''Xeon'', TotalCPU = 20000, FreeCPU = 15000, OverallMemoryUsage = 5,
      MemorySize = 0, FreeMemory = 5\<rparr>"

text \<open>What the concrete runs end in.\<close>

definition final_ba :: "state \<Rightarrow> bool" where
  "final_ba s \<longleftrightarrow>
     main_pc s = Finished \<and> signalled s = [1, 0] \<and> ch_done s = 0 \<and> exit_status s = Some 0"

definition final_lost :: "state \<Rightarrow> bool" where
  "final_lost s \<longleftrightarrow>
     exit_status s = Some 1 \<and> signalled s = [0] \<and> workers s = [Recv, AtInit 1]
     \<and> main_pc s = Wait 1 \<and> csv_file s = Some [Headers zero_hostStat]
     \<and> Call ''Logout'' ''b'' \<notin> set (out s) \<and> Call ''Logout'' ''a'' \<in> set (out s)
     \<and> Log_Fatal ''lookup failed'' \<in> set (out s)
     \<and> map Data (vcs s) = [[row1 ''esx1''], [row1 ''esx2'', row1 ''esx3'']]
     \<and> length (filter (\<lambda>e. e = Call ''NewClient'' ''b'') (out s)) = 1
     \<and> length (filter (\<lambda>e. e = Call ''Retrieve'' ''b'') (out s)) = 1"



definition mentions :: "string \<Rightarrow> event \<Rightarrow> bool" where
  "mentions txt e = (case e of Println l \<Rightarrow> txt \<in> set l | Log_Fatal err \<Rightarrow> txt = err
                     | Panic \<Rightarrow> False | Call f h \<Rightarrow> False)"

section \<open>Arithmetic of the derived metrics\<close>

lemma sint_scast32: "sint (scast (x :: 32 word) :: 64 word) = sint x"
  by (simp add: sint_up_scast is_up)

lemma sint_scast16: "sint (scast (x :: 16 word) :: 64 word) = sint x"
  by (simp add: sint_up_scast is_up)

lemma prod_bound:
  fixes a b :: int
  assumes "\<bar>a\<bar> \<le> A" "\<bar>b\<bar> \<le> B"
  shows "\<bar>a * b\<bar> \<le> A * B"
proof -
  have "\<bar>a * b\<bar> = \<bar>a\<bar> * \<bar>b\<bar>" by (simp add: abs_mult)
  also have "\<dots> \<le> A * B" using assms by (intro mult_mono) auto
  finally show ?thesis .
qed

lemma sint32_abs: "\<bar>sint (x :: 32 word)\<bar> \<le> 2147483648"
  using sint_ge [of x] sint_lt [of x] by simp

lemma sint16_abs: "\<bar>sint (x :: 16 word)\<bar> \<le> 32768"
  using sint_ge [of x] sint_lt [of x] by simp

lemma totalCPU_sint:
  "sint ((scast (m :: 32 word) :: 64 word) * scast (c :: 16 word)) = sint m * sint c"
proof -
  have b: "\<bar>sint m * sint c\<bar> \<le> 2147483648 * 32768"
    by (rule prod_bound [OF sint32_abs sint16_abs])
  have "sint ((scast m :: 64 word) * scast c) = signed_take_bit 63 (sint m * sint c)"
    by (simp add: sint_word_mult sint_scast32 sint_scast16)
  also have "\<dots> = sint m * sint c"
    using b by (intro signed_take_bit_int_eq_self) auto
  finally show ?thesis .
qed

lemma freeCPU_sint:
  "sint ((scast (m :: 32 word) :: 64 word) * scast (c :: 16 word) - scast (u :: 32 word))
     = sint m * sint c - sint u"
proof -
  have b: "\<bar>sint m * sint c\<bar> \<le> 2147483648 * 32768"
    by (rule prod_bound [OF sint32_abs sint16_abs])
  have "sint ((scast m :: 64 word) * scast c - scast u)
          = signed_take_bit 63 (sint m * sint c - sint u)"
    by (simp add: sint_word_diff totalCPU_sint sint_scast32)
  also have "\<dots> = sint m * sint c - sint u"
    using b sint32_abs [of u] by (intro signed_take_bit_int_eq_self) auto
  finally show ?thesis .
qed

lemma megabytes_sint:
  "sint ((scast (u :: 32 word) :: 64 word) * 1024 * 1024) = sint u * 1048576"
proof -
  have e: "(scast u :: 64 word) * 1024 * 1024 = scast u * 1048576" by simp
  have b: "\<bar>sint u * 1048576\<bar> \<le> 2147483648 * 1048576"
    using sint32_abs [of u] by simp
  have "sint ((scast u :: 64 word) * 1048576) = signed_take_bit 63 (sint u * 1048576)"
    by (simp add: sint_word_mult sint_scast32)
  also have "\<dots> = sint u * 1048576"
    using b by (intro signed_take_bit_int_eq_self) auto
  finally show ?thesis by (simp only: e)
qed

lemma freeMemory_sint:
  assumes "0 \<le> sint (t :: 64 word)" "0 \<le> sint (u :: 32 word)"
  shows "sint (t - scast u * 1024 * 1024) = sint t - sint u * 1048576"
proof -
  have "sint (t - scast u * 1024 * 1024) = signed_take_bit 63 (sint t - sint u * 1048576)"
    by (simp only: sint_word_diff megabytes_sint) simp
  also have "\<dots> = sint t - sint u * 1048576"
    using assms sint_lt [of t] sint32_abs [of u]
    by (intro signed_take_bit_int_eq_self) auto
  finally show ?thesis .
qed

section \<open>The invariant\<close>

lemma held_Nil [simp]: "held [] = []"
  by (simp add: held_def)

lemma held_Cons [simp]: "held (pc # ws) = holds pc @ held ws"
  by (simp add: held_def)

lemma held_append [simp]: "held (ws @ ws') = held ws @ held ws'"
  by (simp add: held_def)

lemma held_replicate_Recv [simp]: "held (replicate n Recv) = []"
  by (induction n) auto

lemma mset_held_update:
  "w < length ws \<Longrightarrow>
     mset (held (ws[w := pc])) + mset (holds (ws ! w)) = mset (held ws) + mset (holds pc)"
proof (induction ws arbitrary: w)
  case Nil
  then show ?case by simp
next
  case (Cons a ws)
  show ?case
  proof (cases w)
    case 0
    then show ?thesis by simp
  next
    case (Suc k)
    with Cons.prems have "k < length ws" by simp
    from Cons.IH [OF this] Suc show ?thesis by (simp add: ac_simps)
  qed
qed

lemma holds_subset_held: "w < length ws \<Longrightarrow> set (holds (ws ! w)) \<subseteq> set (held ws)"
proof (induction ws arbitrary: w)
  case Nil
  then show ?case by simp
next
  case (Cons a ws)
  then show ?case by (cases w) auto
qed

lemma held_disjoint:
  "distinct (held ws) \<Longrightarrow> w < length ws \<Longrightarrow> w' < length ws \<Longrightarrow> w \<noteq> w'
     \<Longrightarrow> j \<in> set (holds (ws ! w)) \<Longrightarrow> j \<notin> set (holds (ws ! w'))"
proof (induction ws arbitrary: w w')
  case Nil
  then show ?case by simp
next
  case (Cons a ws)
  show ?case
  proof (cases w)
    case 0
    with Cons.prems obtain k where k: "w' = Suc k" "k < length ws" by (cases w') auto
    from holds_subset_held [OF k(2)] Cons.prems(1,5) 0 k(1) show ?thesis by auto
  next
    case (Suc k)
    note w = this
    show ?thesis
    proof (cases w')
      case 0
      from w Cons.prems have "k < length ws" by simp
      from holds_subset_held [OF this] Cons.prems(1,5) 0 w show ?thesis by auto
    next
      case (Suc k')
      with w Cons.prems Cons.IH [of k k'] show ?thesis by auto
    qed
  qed
qed

lemma inv_distinct: "invariant E s \<Longrightarrow> distinct (all_jobs E s)"
proof -
  assume "invariant E s"
  then have "mset (all_jobs E s) = mset [0..<vcenterCount E]" by (simp add: invariant_def)
  from mset_eq_imp_distinct_iff [OF this] show ?thesis by simp
qed

lemma inv_set: "invariant E s \<Longrightarrow> set (all_jobs E s) = {0..<vcenterCount E}"
proof -
  assume "invariant E s"
  then have "mset (all_jobs E s) = mset [0..<vcenterCount E]" by (simp add: invariant_def)
  from mset_eq_setD [OF this] show ?thesis by simp
qed

lemma worker_ok_update:
  "j \<notin> set (holds pc) \<Longrightarrow> worker_ok E (vs[j := v]) live pc = worker_ok E vs live pc"
  by (cases pc) auto

lemma worker_ok_dead: "worker_ok E vs live pc \<Longrightarrow> worker_ok E vs False pc"
  by (cases pc) auto

lemma session_Init:
  assumes "fst (Connect E v) = None" "Init E (fst (snd (Connect E v))) = (r, v', evs)"
  shows "session E v = (case r of Returns err \<Rightarrow> Returns v' | Exits c \<Rightarrow> Exits c)"
proof -
  obtain a b c where "Connect E v = (a, b, c)" by (cases "Connect E v")
  with assms show ?thesis by (cases r) (simp_all add: session_def)
qed

lemma invD:
  assumes "invariant E s"
  shows "length (vcs s) = vcenterCount E"
    and "mset (all_jobs E s) = mset [0..<vcenterCount E]"
    and "ch_done s + received (vcenterCount E) (main_pc s) = length (signalled s)"
    and "main_ok E s (main_pc s)"
    and "\<not> spawning (main_pc s) \<Longrightarrow>
           j \<in> set (unsent (vcenterCount E) (main_pc s)) \<union> set (ch_vcenters s) \<Longrightarrow>
           vcs s ! j = job E j"
    and "w < length (workers s) \<Longrightarrow>
           worker_ok E (vcs s) (exit_status s = None) (workers s ! w)"
    and "j \<in> set (signalled s) \<Longrightarrow> session E (job E j) = Returns (vcs s ! j)"
  using assms by (simp_all add: invariant_def)

lemma inv_init: "invariant E (main_start E)"
  by (simp add: invariant_def main_start_def all_jobs_def vcenterCount_def)

lemma spawn_blocked:
  assumes "invariant E s" "main_pc s = Spawn i" "w < length (workers s)"
  shows "worker_step E w s = None"
proof -
  from assms have "workers s = replicate i Recv" "ch_vcenters s = []" "\<not> closed s"
    by (simp_all add: invariant_def)
  with assms(3) show ?thesis by (simp add: worker_step_def)
qed

lemma frame:
  assumes "invariant E s" "w < length (workers s)" "j \<in> set (holds (workers s ! w))"
  shows "j < vcenterCount E"
    and "j \<notin> set (ch_vcenters s)"
    and "j \<notin> set (unsent (vcenterCount E) (main_pc s))"
    and "j \<notin> set (signalled s)"
    and "\<forall>w' < length (workers s). w' \<noteq> w \<longrightarrow> j \<notin> set (holds (workers s ! w'))"
proof -
  from assms(2,3) holds_subset_held have h: "j \<in> set (held (workers s))" by blast
  from inv_set [OF assms(1)] h show "j < vcenterCount E" by (auto simp: all_jobs_def)
  from inv_distinct [OF assms(1)] have d: "distinct (all_jobs E s)" .
  from d h show "j \<notin> set (ch_vcenters s)" by (auto simp: all_jobs_def)
  from d h show "j \<notin> set (unsent (vcenterCount E) (main_pc s))" by (auto simp: all_jobs_def)
  from d h show "j \<notin> set (signalled s)" by (auto simp: all_jobs_def)
  from d have "distinct (held (workers s))" by (simp add: all_jobs_def)
  from held_disjoint [OF this assms(2) _ _ assms(3)]
  show "\<forall>w' < length (workers s). w' \<noteq> w \<longrightarrow> j \<notin> set (holds (workers s ! w'))" by blast
qed

lemma not_spawn:
  assumes "invariant E s" "w < length (workers s)" "holds (workers s ! w) = [j]"
  shows "\<not> spawning (main_pc s)"
proof
  assume "spawning (main_pc s)"
  then obtain i where "main_pc s = Spawn i" by (cases "main_pc s") auto
  with assms(1) have "workers s = replicate i Recv" by (simp add: invariant_def)
  with assms(2,3) show False by simp
qed

lemma inv_move:
  assumes i: "invariant E s" and live: "exit_status s = None" and w: "w < length (workers s)"
    and h: "holds (workers s ! w) = [j]" and h': "holds pc' = [j]"
    and ok: "worker_ok E ((vcs s)[j := v]) True pc'"
  shows "invariant E (s\<lparr>vcs := (vcs s)[j := v], out := ou, workers := (workers s)[w := pc']\<rparr>)"
proof -
  let ?s' = "s\<lparr>vcs := (vcs s)[j := v], out := ou, workers := (workers s)[w := pc']\<rparr>"
  from h have jh: "j \<in> set (holds (workers s ! w))" by simp
  note fr = frame [OF i w jh]
  from not_spawn [OF i w h] have ns: "\<not> spawning (main_pc s)" .
  from mset_held_update [OF w, of pc'] h h'
  have mh: "mset (held ((workers s)[w := pc'])) = mset (held (workers s))" by simp
  have 1: "length (vcs ?s') = vcenterCount E" using i by (simp add: invariant_def)
  have 2: "mset (all_jobs E ?s') = mset [0..<vcenterCount E]"
    using i mh by (simp add: invariant_def all_jobs_def)
  have 3: "ch_done ?s' + received (vcenterCount E) (main_pc ?s') = length (signalled ?s')"
    using i by (simp add: invariant_def)
  have 4: "main_ok E ?s' (main_pc ?s')"
    using i ns by (cases "main_pc s") (auto simp: invariant_def)
  have 5: "\<forall>j' \<in> set (unsent (vcenterCount E) (main_pc ?s')) \<union> set (ch_vcenters ?s').
             vcs ?s' ! j' = job E j'"
  proof
    fix j' assume a: "j' \<in> set (unsent (vcenterCount E) (main_pc ?s')) \<union> set (ch_vcenters ?s')"
    with fr(2,3) have "j' \<noteq> j" by auto
    with a i ns show "vcs ?s' ! j' = job E j'" by (auto simp: invariant_def)
  qed
  have 6: "\<forall>w' < length (workers ?s').
             worker_ok E (vcs ?s') (exit_status ?s' = None) (workers ?s' ! w')"
  proof (intro allI impI)
    fix w' assume a: "w' < length (workers ?s')"
    show "worker_ok E (vcs ?s') (exit_status ?s' = None) (workers ?s' ! w')"
    proof (cases "w' = w")
      case True
      with w ok live show ?thesis by simp
    next
      case False
      with a fr(5) have "j \<notin> set (holds (workers s ! w'))" by simp
      from worker_ok_update [OF this] i a False show ?thesis by (simp add: invariant_def)
    qed
  qed
  have 7: "\<forall>j' \<in> set (signalled ?s'). session E (job E j') = Returns (vcs ?s' ! j')"
  proof
    fix j' assume a: "j' \<in> set (signalled ?s')"
    with fr(4) have "j' \<noteq> j" by auto
    with a i show "session E (job E j') = Returns (vcs ?s' ! j')" by (auto simp: invariant_def)
  qed
  from 1 2 3 4 5 6 7 live show ?thesis by (simp add: invariant_def)
qed

lemma inv_exit:
  assumes i: "invariant E s" and live: "exit_status s = None" and w: "w < length (workers s)"
    and pc: "workers s ! w = AtInit j" and ex: "session E (job E j) = Exits c"
  shows "invariant E (s\<lparr>vcs := (vcs s)[j := v], out := ou, exit_status := Some c\<rparr>)"
proof -
  let ?s' = "s\<lparr>vcs := (vcs s)[j := v], out := ou, exit_status := Some c\<rparr>"
  from pc have h: "holds (workers s ! w) = [j]" by simp
  then have jh: "j \<in> set (holds (workers s ! w))" by simp
  note fr = frame [OF i w jh]
  from not_spawn [OF i w h] have ns: "\<not> spawning (main_pc s)" .
  have 1: "length (vcs ?s') = vcenterCount E" using i by (simp add: invariant_def)
  have 2: "mset (all_jobs E ?s') = mset [0..<vcenterCount E]"
    using i by (simp add: invariant_def all_jobs_def)
  have 3: "ch_done ?s' + received (vcenterCount E) (main_pc ?s') = length (signalled ?s')"
    using i by (simp add: invariant_def)
  have 4: "main_ok E ?s' (main_pc ?s')"
    using i ns by (cases "main_pc s") (auto simp: invariant_def)
  have 5: "\<forall>j' \<in> set (unsent (vcenterCount E) (main_pc ?s')) \<union> set (ch_vcenters ?s').
             vcs ?s' ! j' = job E j'"
  proof
    fix j' assume a: "j' \<in> set (unsent (vcenterCount E) (main_pc ?s')) \<union> set (ch_vcenters ?s')"
    with fr(2,3) have "j' \<noteq> j" by auto
    with a i ns show "vcs ?s' ! j' = job E j'" by (auto simp: invariant_def)
  qed
  have 6: "\<forall>w' < length (workers ?s').
             worker_ok E (vcs ?s') (exit_status ?s' = None) (workers ?s' ! w')"
  proof (intro allI impI)
    fix w' assume a: "w' < length (workers ?s')"
    from i a have o: "worker_ok E (vcs s) True (workers s ! w')" using live by (simp add: invariant_def)
    show "worker_ok E (vcs ?s') (exit_status ?s' = None) (workers ?s' ! w')"
    proof (cases "w' = w")
      case True
      with o pc show ?thesis by simp
    next
      case False
      with a fr(5) have "j \<notin> set (holds (workers s ! w'))" by simp
      from worker_ok_update [OF this] worker_ok_dead [OF o] show ?thesis by simp
    qed
  qed
  have 7: "\<forall>j' \<in> set (signalled ?s'). session E (job E j') = Returns (vcs ?s' ! j')"
  proof
    fix j' assume a: "j' \<in> set (signalled ?s')"
    with fr(4) have "j' \<noteq> j" by auto
    with a i show "session E (job E j') = Returns (vcs ?s' ! j')" by (auto simp: invariant_def)
  qed
  have 8: "\<exists>w < length (workers ?s'). \<exists>j c'. workers ?s' ! w = AtInit j
              \<and> session E (job E j) = Exits c' \<and> exit_status ?s' = Some c'"
    using w pc ex by auto
  from 1 2 3 4 5 6 7 8 show ?thesis by (simp add: invariant_def)
qed

lemma inv_recv:
  assumes i: "invariant E s" and live: "exit_status s = None" and w: "w < length (workers s)"
    and pc: "workers s ! w = Recv" and q: "ch_vcenters s = j # q"
  shows "invariant E (s\<lparr>ch_vcenters := q, workers := (workers s)[w := AtConnect j], out := ou\<rparr>)"
proof -
  let ?s' = "s\<lparr>ch_vcenters := q, workers := (workers s)[w := AtConnect j], out := ou\<rparr>"
  have ns: "\<not> spawning (main_pc s)"
  proof
    assume "spawning (main_pc s)"
    then obtain i' where "main_pc s = Spawn i'" by (cases "main_pc s") auto
    with i q show False by (simp add: invariant_def)
  qed
  from mset_held_update [OF w, of "AtConnect j"] pc
  have mh: "mset (held ((workers s)[w := AtConnect j])) = add_mset j (mset (held (workers s)))"
    by simp
  have 1: "length (vcs ?s') = vcenterCount E" using i by (simp add: invariant_def)
  have 2: "mset (all_jobs E ?s') = mset [0..<vcenterCount E]"
    using i mh q by (simp add: invariant_def all_jobs_def)
  have 3: "ch_done ?s' + received (vcenterCount E) (main_pc ?s') = length (signalled ?s')"
    using i by (simp add: invariant_def)
  have 4: "main_ok E ?s' (main_pc ?s')"
    using i ns by (cases "main_pc s") (auto simp: invariant_def)
  have 5: "\<forall>j' \<in> set (unsent (vcenterCount E) (main_pc ?s')) \<union> set (ch_vcenters ?s').
             vcs ?s' ! j' = job E j'"
    using i ns q by (auto simp: invariant_def)
  have j: "vcs s ! j = job E j" using invD(5) [OF i ns, of j] q by simp
  have 6: "\<forall>w' < length (workers ?s').
             worker_ok E (vcs ?s') (exit_status ?s' = None) (workers ?s' ! w')"
  proof (intro allI impI)
    fix w' assume a: "w' < length (workers ?s')"
    then have "w' < length (workers s)" by simp
    from invD(6) [OF i this] j w
    show "worker_ok E (vcs ?s') (exit_status ?s' = None) (workers ?s' ! w')"
      by (cases "w' = w") simp_all
  qed
  have 7: "\<forall>j' \<in> set (signalled ?s'). session E (job E j') = Returns (vcs ?s' ! j')"
    using i by (auto simp: invariant_def)
  from 1 2 3 4 5 6 7 live show ?thesis by (simp add: invariant_def)
qed

lemma inv_return:
  assumes i: "invariant E s" and live: "exit_status s = None" and w: "w < length (workers s)"
    and pc: "workers s ! w = Recv" and c: "closed s"
  shows "invariant E (s\<lparr>workers := (workers s)[w := Returned]\<rparr>)"
proof -
  let ?s' = "s\<lparr>workers := (workers s)[w := Returned]\<rparr>"
  have ns: "\<not> spawning (main_pc s)"
  proof
    assume "spawning (main_pc s)"
    then obtain i' where "main_pc s = Spawn i'" by (cases "main_pc s") auto
    with i c show False by (simp add: invariant_def)
  qed
  from mset_held_update [OF w, of Returned] pc
  have mh: "mset (held ((workers s)[w := Returned])) = mset (held (workers s))" by simp
  have 2: "mset (all_jobs E ?s') = mset [0..<vcenterCount E]"
    using i mh by (simp add: invariant_def all_jobs_def)
  have 4: "main_ok E ?s' (main_pc ?s')"
    using i ns by (cases "main_pc s") (auto simp: invariant_def)
  have 6: "\<forall>w' < length (workers ?s').
             worker_ok E (vcs ?s') (exit_status ?s' = None) (workers ?s' ! w')"
  proof (intro allI impI)
    fix w' assume a: "w' < length (workers ?s')"
    then have "w' < length (workers s)" by simp
    from invD(6) [OF i this] w
    show "worker_ok E (vcs ?s') (exit_status ?s' = None) (workers ?s' ! w')"
      by (cases "w' = w") simp_all
  qed
  from 2 4 6 invD(1,3) [OF i] invD(5,7) [OF i] ns live show ?thesis by (simp add: invariant_def)
qed

lemma inv_signal:
  assumes i: "invariant E s" and live: "exit_status s = None" and w: "w < length (workers s)"
    and pc: "workers s ! w = AtSignal j"
  shows "invariant E (s\<lparr>ch_done := Suc (ch_done s), signalled := signalled s @ [j],
                  workers := (workers s)[w := Recv]\<rparr>)"
proof -
  let ?s' = "s\<lparr>ch_done := Suc (ch_done s), signalled := signalled s @ [j],
               workers := (workers s)[w := Recv]\<rparr>"
  from pc have h: "holds (workers s ! w) = [j]" by simp
  from not_spawn [OF i w h] have ns: "\<not> spawning (main_pc s)" .
  from mset_held_update [OF w, of Recv] pc
  have mh: "add_mset j (mset (held ((workers s)[w := Recv]))) = mset (held (workers s))" by simp
  have 2: "mset (all_jobs E ?s') = mset [0..<vcenterCount E]"
    using i mh [symmetric] by (simp add: invariant_def all_jobs_def)
  have 3: "ch_done ?s' + received (vcenterCount E) (main_pc ?s') = length (signalled ?s')"
    using i by (simp add: invariant_def)
  have 4: "main_ok E ?s' (main_pc ?s')"
    using i ns by (cases "main_pc s") (auto simp: invariant_def)
  have 6: "\<forall>w' < length (workers ?s').
             worker_ok E (vcs ?s') (exit_status ?s' = None) (workers ?s' ! w')"
  proof (intro allI impI)
    fix w' assume a: "w' < length (workers ?s')"
    then have "w' < length (workers s)" by simp
    from invD(6) [OF i this] w
    show "worker_ok E (vcs ?s') (exit_status ?s' = None) (workers ?s' ! w')"
      by (cases "w' = w") simp_all
  qed
  from invD(6) [OF i w] pc live have "session E (job E j) = Returns (vcs s ! j)" by simp
  then have 7: "\<forall>j' \<in> set (signalled ?s'). session E (job E j') = Returns (vcs ?s' ! j')"
    using invD(7) [OF i] by auto
  from 2 3 4 6 7 invD(1) [OF i] invD(5) [OF i] ns live show ?thesis by (simp add: invariant_def)
qed

lemma inv_worker_step:
  assumes i: "invariant E s" and live: "exit_status s = None" and w: "w < length (workers s)"
    and st: "worker_step E w s = Some s'"
  shows "invariant E s'"
proof (cases "workers s ! w")
  case Recv
  show ?thesis
  proof (cases "ch_vcenters s")
    case Nil
    with st Recv have c: "closed s" and s': "s' = s\<lparr>workers := (workers s)[w := Returned]\<rparr>"
      by (auto simp: worker_step_def split: if_splits)
    show ?thesis unfolding s' by (rule inv_return [OF i live w Recv c])
  next
    case (Cons j q)
    with st Recv have s': "s' = s\<lparr>ch_vcenters := q, workers := (workers s)[w := AtConnect j],
        out := out s @ [Println [''Worker'', itoa (int w), '': Received vcenter job'',
                                 Hostname (vcs s ! j)]]\<rparr>"
      by (auto simp: worker_step_def)
    show ?thesis unfolding s' by (rule inv_recv [OF i live w Recv Cons])
  qed
next
  case (AtConnect j)
  then have h: "holds (workers s ! w) = [j]" by simp
  from invD(6) [OF i w] AtConnect have v: "vcs s ! j = job E j" by simp
  from frame(1) [OF i w, of j] h invD(1) [OF i] have jl: "j < length (vcs s)" by simp
  obtain r v' evs where c: "Connect E (job E j) = (r, v', evs)" by (cases "Connect E (job E j)")
  show ?thesis
  proof (cases r)
    case None
    have ok: "worker_ok E ((vcs s)[j := v']) True (AtInit j)"
      using c None jl by simp
    from st AtConnect v c None
    have s': "s' = s\<lparr>vcs := (vcs s)[j := v'], out := out s @ evs,
                      workers := (workers s)[w := AtInit j]\<rparr>"
      by (simp add: worker_step_def)
    show ?thesis unfolding s' by (rule inv_move [OF i live w h _ ok]) simp
  next
    case (Some err)
    have ok: "worker_ok E ((vcs s)[j := v']) True (AtSignal j)"
      using c Some jl by (simp add: session_def)
    from st AtConnect v c Some
    have s': "s' = s\<lparr>vcs := (vcs s)[j := v'],
                      out := out s @ evs @
                         [Println [''Worker'', itoa (int w),
                                   '': Could not initialize connection to vcenter'',
                                   Hostname v', err]],
                      workers := (workers s)[w := AtSignal j]\<rparr>"
      by (simp add: worker_step_def)
    show ?thesis unfolding s' by (rule inv_move [OF i live w h _ ok]) simp
  qed
next
  case (AtInit j)
  then have h: "holds (workers s ! w) = [j]" by simp
  from invD(6) [OF i w] AtInit live have v: "fst (Connect E (job E j)) = None"
    "vcs s ! j = fst (snd (Connect E (job E j)))" by simp_all
  from frame(1) [OF i w, of j] h invD(1) [OF i] have jl: "j < length (vcs s)" by simp
  obtain r v' evs where c: "Init E (vcs s ! j) = (r, v', evs)" by (cases "Init E (vcs s ! j)")
  show ?thesis
  proof (cases r)
    case (Returns err)
    have "session E (job E j) = Returns v'"
      using session_Init [OF v(1), of r v' evs] c Returns v(2) by simp
    then have ok: "worker_ok E ((vcs s)[j := v']) True (AtDisconnect j)"
      using v jl by simp
    from st AtInit c Returns
    have s': "s' = s\<lparr>vcs := (vcs s)[j := v'],
                      out := out s @ evs @
                         (if err = None
                          then [Println [''Worker'', itoa (int w), '': Done'', Hostname v']]
                          else []),
                      workers := (workers s)[w := AtDisconnect j]\<rparr>"
      by (simp add: worker_step_def)
    show ?thesis unfolding s' by (rule inv_move [OF i live w h _ ok]) simp
  next
    case (Exits c')
    have ex: "session E (job E j) = Exits c'"
      using session_Init [OF v(1), of r v' evs] c Exits v(2) by simp
    from st AtInit c Exits
    have s': "s' = s\<lparr>vcs := (vcs s)[j := v'], out := out s @ evs, exit_status := Some c'\<rparr>"
      by (simp add: worker_step_def)
    show ?thesis unfolding s' by (rule inv_exit [OF i live w AtInit ex])
  qed
next
  case (AtDisconnect j)
  then have h: "holds (workers s ! w) = [j]" by simp
  from invD(6) [OF i w] AtDisconnect
  have ok: "worker_ok E ((vcs s)[j := vcs s ! j]) True (AtSignal j)" by simp
  from st AtDisconnect
  have s': "s' = s\<lparr>vcs := (vcs s)[j := vcs s ! j],
                    out := out s @ snd (Disconnect (vcs s ! j)),
                    workers := (workers s)[w := AtSignal j]\<rparr>"
    by (simp add: worker_step_def split: prod.splits)
  show ?thesis unfolding s' by (rule inv_move [OF i live w h _ ok]) simp
next
  case (AtSignal j)
  with st have s': "s' = s\<lparr>ch_done := Suc (ch_done s), signalled := signalled s @ [j],
                            workers := (workers s)[w := Recv]\<rparr>"
    by (auto simp: worker_step_def split: if_splits)
  show ?thesis unfolding s' by (rule inv_signal [OF i live w AtSignal])
next
  case Returned
  with st show ?thesis by (simp add: worker_step_def)
qed

lemma spawn_vcs:
  assumes "i < length cfg"
  shows "(map f [0..<i] @ drop i cfg)[i := g ((map f [0..<i] @ drop i cfg) ! i)]
           = map f [0..<i] @ g (cfg ! i) # drop (Suc i) cfg"
proof -
  from assms have d: "drop i cfg = cfg ! i # drop (Suc i) cfg"
    by (simp add: Cons_nth_drop_Suc)
  show ?thesis by (simp add: list_update_append nth_append d)
qed

lemma barrier:
  assumes i: "invariant E s" and r: "received (vcenterCount E) (main_pc s) = vcenterCount E"
    and ns: "\<not> spawning (main_pc s)" "\<forall>k. main_pc s \<noteq> Send k"
  shows "set (signalled s) = {0..<vcenterCount E}" and "ch_vcenters s = []"
    and "held (workers s) = []" and "mset (signalled s) = mset [0..<vcenterCount E]"
    and "ch_done s = 0"
proof -
  from ns have u: "unsent (vcenterCount E) (main_pc s) = []" by (cases "main_pc s") auto
  from mset_eq_length [OF invD(2) [OF i]] u
  have l: "length (ch_vcenters s) + length (held (workers s)) + length (signalled s)
             = vcenterCount E"
    by (simp add: all_jobs_def)
  from invD(3) [OF i] r have "vcenterCount E \<le> length (signalled s)" by simp
  with l have "length (ch_vcenters s) = 0 \<and> length (held (workers s)) = 0" by arith
  then have q: "ch_vcenters s = []" and h: "held (workers s) = []" by simp_all
  from q show "ch_vcenters s = []" .
  from h show "held (workers s) = []" .
  from invD(2) [OF i] u q h show m: "mset (signalled s) = mset [0..<vcenterCount E]"
    by (simp add: all_jobs_def)
  from mset_eq_setD [OF m] show "set (signalled s) = {0..<vcenterCount E}" by simp
  from l q h invD(3) [OF i] r show "ch_done s = 0" by simp
qed

lemma inv_spawn:
  assumes i: "invariant E s" and live: "exit_status s = None" and st: "main_step E s = Some s'"
    and Spawn: "main_pc s = Spawn k"
  shows "invariant E s'"
proof -
  note m = invD(4) [OF i, unfolded Spawn, simplified]
  from m have m': "workers s = replicate k Recv" "ch_vcenters s = []" "\<not> closed s"
    "signalled s = []" "ch_done s = 0" "csv_file s = exported E 0"
    and mv: "vcs s = map (job E) [0..<k] @ drop k (VCenters (config E))"
    and mk: "k \<le> vcenterCount E" by simp_all
  show ?thesis
  proof (cases "k < vcenterCount E")
    case True
    with st Spawn invD(1) [OF i]
    have s': "s' = s\<lparr>vcs := (vcs s)[k := (vcs s ! k)\<lparr>Worker := int k\<rparr>],
                      workers := workers s @ [Recv], main_pc := Spawn (Suc k)\<rparr>"
      by (simp add: main_step_def)
    from True have kl: "k < length (VCenters (config E))" by (simp add: vcenterCount_def)
    have v: "(vcs s)[k := (vcs s ! k)\<lparr>Worker := int k\<rparr>]
               = map (job E) [0..<Suc k] @ drop (Suc k) (VCenters (config E))"
      unfolding mv using spawn_vcs [OF kl, of "job E" "\<lambda>v. v\<lparr>Worker := int k\<rparr>"]
      by (simp add: job_def)
    have w: "workers s @ [Recv] = replicate (Suc k) Recv"
      using m'(1) by (simp add: replicate_append_same)
    have 1: "length (vcs s') = vcenterCount E" unfolding s' using invD(1) [OF i] by simp
    have 2: "mset (all_jobs E s') = mset [0..<vcenterCount E]"
      unfolding s' using m' by (simp add: all_jobs_def)
    have 3: "ch_done s' + received (vcenterCount E) (main_pc s') = length (signalled s')"
      unfolding s' using m' by simp
    have 4: "main_ok E s' (main_pc s')"
      unfolding s' using True v w m'(2-6) by (simp del: upt_Suc replicate_Suc)
    have 6: "\<forall>w' < length (workers s').
               worker_ok E (vcs s') (exit_status s' = None) (workers s' ! w')"
      unfolding s' using w by (simp del: replicate_Suc)
    have 7: "\<forall>j \<in> set (signalled s'). session E (job E j) = Returns (vcs s' ! j)"
      unfolding s' using m' by simp
    have 8: "exit_status s' = None" "spawning (main_pc s')" unfolding s' using live by simp_all
    from 1 2 3 4 6 7 8 show ?thesis by (simp add: invariant_def)
  next
    case False
    with mk have k: "k = vcenterCount E" by simp
    from st Spawn False invD(1) [OF i] have s': "s' = s\<lparr>main_pc := Send 0\<rparr>"
      by (simp add: main_step_def)
    have "vcs s = map (job E) [0..<vcenterCount E]"
      using mv k by (simp add: vcenterCount_def)
    then have v: "\<forall>j < vcenterCount E. vcs s ! j = job E j"
      by (metis add_0 length_upt diff_zero nth_map nth_upt)
    have 1: "length (vcs s') = vcenterCount E" unfolding s' using invD(1) [OF i] by simp
    have 2: "mset (all_jobs E s') = mset [0..<vcenterCount E]"
      unfolding s' using m' by (simp add: all_jobs_def)
    have 3: "ch_done s' + received (vcenterCount E) (main_pc s') = length (signalled s')"
      unfolding s' using m' by simp
    have 4: "main_ok E s' (main_pc s')" unfolding s' using m' by simp
    have 5: "\<forall>j \<in> set (unsent (vcenterCount E) (main_pc s')) \<union> set (ch_vcenters s').
               vcs s' ! j = job E j"
      unfolding s' using m' v by simp
    have 6: "\<forall>w' < length (workers s').
               worker_ok E (vcs s') (exit_status s' = None) (workers s' ! w')"
      unfolding s' using m'(1) by simp
    have 7: "\<forall>j \<in> set (signalled s'). session E (job E j) = Returns (vcs s' ! j)"
      unfolding s' using m' by simp
    have 8: "exit_status s' = None" unfolding s' using live by simp
    from 1 2 3 4 5 6 7 8 show ?thesis by (simp add: invariant_def)
  qed
qed

lemma inv_keep:
  assumes i: "invariant E s" and live: "exit_status s = None"
    and live': "exit_status s' = None \<or> main_pc s' = Finished"
    and ns: "\<not> spawning (main_pc s)"
    and 1: "vcs s' = vcs s" and 2: "workers s' = workers s" and 3: "signalled s' = signalled s"
    and 4: "mset (unsent (vcenterCount E) (main_pc s') @ ch_vcenters s')
              = mset (unsent (vcenterCount E) (main_pc s) @ ch_vcenters s)"
    and 5: "ch_done s' + received (vcenterCount E) (main_pc s')
              = ch_done s + received (vcenterCount E) (main_pc s)"
    and 6: "main_ok E s' (main_pc s')" and 7: "\<not> spawning (main_pc s')"
  shows "invariant E s'"
proof -
  from mset_eq_setD [OF 4]
  have u: "set (unsent (vcenterCount E) (main_pc s')) \<union> set (ch_vcenters s')
             = set (unsent (vcenterCount E) (main_pc s)) \<union> set (ch_vcenters s)"
    by simp
  have "mset (all_jobs E s')
          = mset (unsent (vcenterCount E) (main_pc s') @ ch_vcenters s')
              + (mset (held (workers s)) + mset (signalled s))"
    by (simp add: all_jobs_def 2 3)
  also have "\<dots> = mset (unsent (vcenterCount E) (main_pc s) @ ch_vcenters s)
                    + (mset (held (workers s)) + mset (signalled s))"
    by (simp only: 4)
  also have "\<dots> = mset (all_jobs E s)" by (simp add: all_jobs_def)
  finally have a: "mset (all_jobs E s') = mset [0..<vcenterCount E]"
    using invD(2) [OF i] by simp
  have b: "\<forall>j \<in> set (unsent (vcenterCount E) (main_pc s')) \<union> set (ch_vcenters s').
             vcs s' ! j = job E j"
    unfolding u 1 using invD(5) [OF i ns] by blast
  have c: "\<forall>w < length (workers s'). worker_ok E (vcs s') (exit_status s' = None) (workers s' ! w)"
  proof (intro allI impI)
    fix w assume "w < length (workers s')"
    then have "w < length (workers s)" using 2 by simp
    from invD(6) [OF i this] live have "worker_ok E (vcs s) True (workers s ! w)" by simp
    then have "worker_ok E (vcs s) (exit_status s' = None) (workers s ! w)"
      by (cases "exit_status s' = None") (auto dest: worker_ok_dead)
    then show "worker_ok E (vcs s') (exit_status s' = None) (workers s' ! w)"
      unfolding 1 2 .
  qed
  have d: "\<forall>j \<in> set (signalled s'). session E (job E j) = Returns (vcs s' ! j)"
    unfolding 1 3 using invD(7) [OF i] by blast
  have e: "length (vcs s') = vcenterCount E" unfolding 1 using invD(1) [OF i] .
  have f: "ch_done s' + received (vcenterCount E) (main_pc s') = length (signalled s')"
    unfolding 5 3 using invD(3) [OF i] .
  from a b c d e f 6 7 live' show ?thesis by (auto simp: invariant_def)
qed

lemma inv_send:
  assumes i: "invariant E s" and live: "exit_status s = None" and st: "main_step E s = Some s'"
    and Send: "main_pc s = Send k"
  shows "invariant E s'"
proof -
  note m = invD(4) [OF i, unfolded Send, simplified]
  have ns: "\<not> spawning (main_pc s)" using Send by simp
  show ?thesis
  proof (cases "k < vcenterCount E")
    case True
    with st Send invD(1) [OF i]
    have s': "s' = s\<lparr>ch_vcenters := ch_vcenters s @ [k], main_pc := Send (Suc k)\<rparr>"
      by (simp add: main_step_def)
    from True have u: "[k..<vcenterCount E] = k # [Suc k..<vcenterCount E]"
      by (simp add: upt_conv_Cons)
    show ?thesis
    proof (rule inv_keep [OF i live _ ns])
      show "mset (unsent (vcenterCount E) (main_pc s') @ ch_vcenters s')
              = mset (unsent (vcenterCount E) (main_pc s) @ ch_vcenters s)"
        unfolding s' Send using u by simp
    qed (use live m True Send in \<open>simp_all add: s'\<close>)
  next
    case False
    from st Send False invD(1) [OF i] have s': "s' = s\<lparr>closed := True, main_pc := Wait 0\<rparr>"
      by (simp add: main_step_def)
    show ?thesis
      by (rule inv_keep [OF i live _ ns]) (use live m False Send in \<open>simp_all add: s'\<close>)
  qed
qed

lemma inv_wait:
  assumes i: "invariant E s" and live: "exit_status s = None" and st: "main_step E s = Some s'"
    and Wait: "main_pc s = Wait k"
  shows "invariant E s'"
proof -
  note m = invD(4) [OF i, unfolded Wait, simplified]
  have ns: "\<not> spawning (main_pc s)" using Wait by simp
  show ?thesis
  proof (cases "k < vcenterCount E")
    case True
    with st Wait invD(1) [OF i]
    have d: "0 < ch_done s"
      and s': "s' = s\<lparr>ch_done := ch_done s - 1, main_pc := Wait (Suc k)\<rparr>"
      by (auto simp: main_step_def split: if_splits)
    show ?thesis
      by (rule inv_keep [OF i live _ ns]) (use live m True Wait d in \<open>simp_all add: s'\<close>)
  next
    case False
    with m have k: "k = vcenterCount E" by simp
    from st Wait False invD(1) [OF i]
    have s': "s' = s\<lparr>out := out s @ [Println [''Main : merging results...'']],
                      main_pc := Export 0\<rparr>"
      by (simp add: main_step_def)
    show ?thesis
      by (rule inv_keep [OF i live _ ns]) (use live m k Wait in \<open>simp_all add: s'\<close>)
  qed
qed

lemma inv_export:
  assumes i: "invariant E s" and live: "exit_status s = None" and st: "main_step E s = Some s'"
    and Export: "main_pc s = Export k"
  shows "invariant E s'"
proof -
  note m = invD(4) [OF i, unfolded Export, simplified]
  have ns: "\<not> spawning (main_pc s)" using Export by simp
  show ?thesis
  proof (cases "k < vcenterCount E")
    case True
    with st Export invD(1) [OF i]
    have s': "s' = s\<lparr>out := out s @
                        [Println [''Main : worker'', itoa (Worker (vcs s ! k)), ''got'',
                                  itoa (int (length (Data (vcs s ! k)))), ''results from'',
                                  Hostname (vcs s ! k)]],
                      csv_file := snd (csvExport E k (Data (vcs s ! k)) (Outpath (config E))
                                         (csv_file s)),
                      main_pc := Export (Suc k)\<rparr>"
      by (simp add: main_step_def Let_def)
    from barrier(1) [OF i _ ns] Export True have "k \<in> set (signalled s)" by simp
    from invD(7) [OF i this] have r: "job_rows E k = Data (vcs s ! k)" by (simp add: job_rows_def)
    show ?thesis
      by (rule inv_keep [OF i live _ ns]) (use live m True Export r in \<open>simp_all add: s'\<close>)
  next
    case False
    with m have k: "k = vcenterCount E" by simp
    from st Export False invD(1) [OF i]
    have s': "s' = s\<lparr>out := out s @
                        [Println [''Main : Results saved to'', Outpath (config E)]],
                      main_pc := Finished, exit_status := Some 0\<rparr>"
      by (simp add: main_step_def)
    show ?thesis
      by (rule inv_keep [OF i live _ ns]) (use live m k Export in \<open>simp_all add: s'\<close>)
  qed
qed

lemma inv_main_step:
  assumes i: "invariant E s" and live: "exit_status s = None" and st: "main_step E s = Some s'"
  shows "invariant E s'"
proof (cases "main_pc s")
  case (Spawn k)
  from inv_spawn [OF i live st this] show ?thesis .
next
  case (Send k)
  from inv_send [OF i live st this] show ?thesis .
next
  case (Wait k)
  from inv_wait [OF i live st this] show ?thesis .
next
  case (Export k)
  from inv_export [OF i live st this] show ?thesis .
next
  case Finished
  with st show ?thesis by (simp add: main_step_def)
qed

lemma inv_step:
  assumes "invariant E s" "step E t s = Some s'"
  shows "invariant E s'"
proof -
  from assms(2) have live: "exit_status s = None"
    by (simp add: step_def split: if_splits)
  show ?thesis
  proof (cases t)
    case Main
    with assms(2) live have "main_step E s = Some s'" by (simp add: step_def)
    from inv_main_step [OF assms(1) live this] show ?thesis .
  next
    case (Worker_thread w)
    with assms(2) live have "w < length (workers s)" "worker_step E w s = Some s'"
      by (simp_all add: step_def split: if_splits)
    from inv_worker_step [OF assms(1) live this] show ?thesis .
  qed
qed

lemma inv_run_from: "invariant E s \<Longrightarrow> run E ts s = Some s' \<Longrightarrow> invariant E s'"
proof (induction ts arbitrary: s)
  case Nil
  then show ?case by simp
next
  case (Cons t ts)
  from Cons.prems(2) obtain s1 where s1: "step E t s = Some s1" "run E ts s1 = Some s'"
    by (cases "step E t s") simp_all
  from Cons.IH [OF inv_step [OF Cons.prems(1) s1(1)] s1(2)] show ?case .
qed

lemma inv_run: "run E ts (main_start E) = Some s \<Longrightarrow> invariant E s"
  by (rule inv_run_from [OF inv_init])

section \<open>The sink, sessions and the log\<close>




lemma Connect_client:
  assumes "fst (Connect E v) = None"
  shows "client (fst (snd (Connect E v))) \<noteq> None"
  using assms
  by (auto simp: Connect_def Let_def split: option.splits sum.splits)

lemma Init_hosts_Exits:
  "Init_hosts bs h hss data = (Exits c, data', evs) \<Longrightarrow> c = 1 \<or> c = 2"
proof (induction hss arbitrary: data evs)
  case Nil
  then show ?case by simp
next
  case (Cons hs hss)
  show ?case
  proof (cases "Parent_nil hs \<or> Summary_Hardware_nil hs \<or> Config_nil hs \<or> Hardware_nil hs
                  \<or> (\<exists>err. Parent_name hs = Inl err)")
    case True
    with Cons.prems show ?thesis by (auto split: if_splits sum.splits)
  next
    case False
    then obtain name where n: "Parent_name hs = Inr name" by (cases "Parent_name hs") auto
    obtain r d e where i: "Init_hosts bs h hss (data @ [Slice bs (stats name hs)]) = (r, d, e)"
      by (cases "Init_hosts bs h hss (data @ [Slice bs (stats name hs)])")
    with Cons.prems False n have "r = Exits c" "d = data'" by simp_all
    with i have "Init_hosts bs h hss (data @ [Slice bs (stats name hs)]) = (Exits c, data', e)"
      by simp
    then show ?thesis by (rule Cons.IH)
  qed
qed

lemma Init_Exits:
  assumes "Init E v = (Exits c, v', evs)"
  shows "c = 1 \<or> c = 2"
proof (cases "client v")
  case None
  with assms show ?thesis by (simp add: Init_def Let_def)
next
  case (Some cl)
  show ?thesis
  proof (cases "CreateContainerView_err cl")
    case (Some err)
    with assms \<open>client v = Some cl\<close> show ?thesis by (simp add: Init_def Let_def)
  next
    case None
    show ?thesis
    proof (cases "Retrieve_result cl")
      case (Inl err)
      with assms \<open>client v = Some cl\<close> None show ?thesis by (simp add: Init_def Let_def)
    next
      case (Inr hss)
      obtain r d e where i: "Init_hosts (ByteSize_String E) (Hostname v) hss (Data v) = (r, d, e)"
        by (cases "Init_hosts (ByteSize_String E) (Hostname v) hss (Data v)")
      with assms \<open>client v = Some cl\<close> None Inr have "r = Exits c"
        by (cases r) (simp_all add: Init_def Let_def)
      with i Init_hosts_Exits show ?thesis by blast
    qed
  qed
qed

lemma session_Exits:
  assumes "session E v = Exits c"
  shows "c = 1 \<or> c = 2" and "fst (Connect E v) = None"
proof -
  obtain a b d where cn: "Connect E v = (a, b, d)" by (cases "Connect E v")
  obtain r v' evs where it: "Init E b = (r, v', evs)" by (cases "Init E b")
  from assms cn it have a: "a = None" and r: "r = Exits c"
    by (auto simp: session_def split: option.splits outcome.splits)
  from a cn show "fst (Connect E v) = None" by simp
  from Init_Exits [OF it [unfolded r]] show "c = 1 \<or> c = 2" .
qed

lemma concat_map_filter:
  "(\<forall>x \<in> set xs. \<not> P x \<longrightarrow> f x = []) \<Longrightarrow> concat (map f (filter P xs)) = concat (map f xs)"
  by (induction xs) auto








lemma exporting_barrier:
  assumes i: "invariant E s" and e: "exporting (main_pc s)"
  shows "set (signalled s) = {0..<vcenterCount E}"
    and "mset (signalled s) = mset [0..<vcenterCount E]"
    and "ch_done s = 0" and "ch_vcenters s = []" and "held (workers s) = []"
proof -
  from e have a: "received (vcenterCount E) (main_pc s) = vcenterCount E"
    and b: "\<not> spawning (main_pc s)" and c: "\<forall>k. main_pc s \<noteq> Send k"
    by (cases "main_pc s"; simp)+
  note bar = barrier [OF i a b c]
  from bar(1) show "set (signalled s) = {0..<vcenterCount E}" .
  from bar(4) show "mset (signalled s) = mset [0..<vcenterCount E]" .
  from bar(5) show "ch_done s = 0" .
  from bar(2) show "ch_vcenters s = []" .
  from bar(3) show "held (workers s) = []" .
qed

lemma not_exporting_file:
  assumes i: "invariant E s" and e: "\<not> exporting (main_pc s)"
  shows "csv_file s = exported E 0"
  using invD(4) [OF i] e by (cases "main_pc s") simp_all

lemma inv_exitD:
  assumes "invariant E s" "exit_status s \<noteq> None" "main_pc s \<noteq> Finished"
  shows "\<exists>j c. session E (job E j) = Exits c \<and> exit_status s = Some c"
  using assms unfolding invariant_def by blast


lemma worker_at:
  assumes "invariant E s" "pc \<in> set (workers s)"
  shows "worker_ok E (vcs s) (exit_status s = None) pc"
proof -
  from assms(2) obtain w where "w < length (workers s)" "workers s ! w = pc"
    by (auto simp: in_set_conv_nth)
  with invD(6) [OF assms(1), of w] show ?thesis by simp
qed


text \<open>
  The rows of a session: \<^verbatim>\<open>Init\<close> appends one row per host, the \<^verbatim>\<open>Slice\<close> of the record
  built for it, in the order the hosts were retrieved; when a lookup fails, the rows of
  the hosts before it have been appended.
\<close>

lemma Init_hosts_rows:
  "Init_hosts bs h hss data = (Returns u, data', evs) \<Longrightarrow>
     data' = data @ map (\<lambda>hs. Slice bs (stats (projr (Parent_name hs)) hs)) hss"
proof (induction hss arbitrary: data evs)
  case Nil
  then show ?case by simp
next
  case (Cons hs hss)
  from Cons.prems have np: "\<not> Parent_nil hs" by (auto split: if_splits)
  with Cons.prems obtain name where n: "Parent_name hs = Inr name"
    by (cases "Parent_name hs") simp_all
  with Cons.prems np
  have nn: "\<not> Summary_Hardware_nil hs" "\<not> Config_nil hs" "\<not> Hardware_nil hs"
    by (auto split: if_splits)
  obtain r d e where i: "Init_hosts bs h hss (data @ [Slice bs (stats name hs)]) = (r, d, e)"
    by (cases "Init_hosts bs h hss (data @ [Slice bs (stats name hs)])")
  with Cons.prems np n nn have "r = Returns u" "d = data'" by simp_all
  with i have "Init_hosts bs h hss (data @ [Slice bs (stats name hs)]) = (Returns u, data', e)"
    by simp
  from Cons.IH [OF this] n show ?case by simp
qed

lemma Init_hosts_prefix:
  "Init_hosts bs h hss data = (r, data', evs) \<Longrightarrow>
     \<exists>k \<le> length hss.
        data' = data @ map (\<lambda>hs. Slice bs (stats (projr (Parent_name hs)) hs)) (take k hss)"
proof (induction hss arbitrary: data r evs)
  case Nil
  then show ?case by simp
next
  case (Cons hs hss)
  show ?case
  proof (cases "Parent_nil hs \<or> Summary_Hardware_nil hs \<or> Config_nil hs \<or> Hardware_nil hs
                  \<or> (\<exists>err. Parent_name hs = Inl err)")
    case True
    with Cons.prems have "data' = data" by (auto split: if_splits sum.splits)
    then show ?thesis by (intro exI [of _ 0]) simp
  next
    case False
    then obtain name where n: "Parent_name hs = Inr name" by (cases "Parent_name hs") auto
    obtain r' d e where i: "Init_hosts bs h hss (data @ [Slice bs (stats name hs)]) = (r', d, e)"
      by (cases "Init_hosts bs h hss (data @ [Slice bs (stats name hs)])")
    with Cons.prems False n have "d = data'" by simp
    with i have "Init_hosts bs h hss (data @ [Slice bs (stats name hs)]) = (r', data', e)"
      by simp
    from Cons.IH [OF this]
    obtain k where k: "k \<le> length hss"
      "data' = (data @ [Slice bs (stats name hs)])
                 @ map (\<lambda>hs. Slice bs (stats (projr (Parent_name hs)) hs)) (take k hss)"
      by auto
    then show ?thesis using n by (intro exI [of _ "Suc k"]) simp
  qed
qed

lemma session_rows:
  assumes "NewClient E (Worker v) (''https://'' @ Username v @ '':'' @ Password v @ ''@''
             @ Hostname v @ ''/sdk'') = Inr c"
    and "url_Parse_err E (''https://'' @ Username v @ '':'' @ Password v @ ''@''
             @ Hostname v @ ''/sdk'') = None"
    and "session E v = Returns v'"
  shows "\<exists>hss. Retrieve_result c = Inr hss
           \<and> Data v' = Data v @ map (\<lambda>hs. Slice (ByteSize_String E)
                                          (stats (projr (Parent_name hs)) hs)) hss"
proof -
  from assms(1,2) have c: "Connect E v = (None, v\<lparr>client := Some c\<rparr>,
      [Println [''Worker'', itoa (Worker v), '': Connecting to vcenter:'', Hostname v],
       Call ''NewClient'' (Hostname v)])"
    by (simp add: Connect_def Let_def)
  from assms(3) c obtain e evs where i: "Init E (v\<lparr>client := Some c\<rparr>) = (Returns e, v', evs)"
    by (auto simp: session_def split: prod.splits outcome.splits)
  then obtain hss where h: "Retrieve_result c = Inr hss"
    by (cases "Retrieve_result c") (auto simp: Init_def Let_def split: option.splits)
  obtain r d ev where ih: "Init_hosts (ByteSize_String E) (Hostname v) hss (Data v) = (r, d, ev)"
    by (cases "Init_hosts (ByteSize_String E) (Hostname v) hss (Data v)")
  with i h obtain u where "r = Returns u" "Data v' = d"
    by (cases r) (auto simp: Init_def Let_def split: option.splits)
  with Init_hosts_rows [of "ByteSize_String E" "Hostname v" hss "Data v" u d ev] ih h
  show ?thesis by simp
qed

section \<open>Concrete runs\<close>

lemmas model_defs =
  step_def main_step_def worker_step_def main_start_def config_def vcenterCount_def
  Connect_def Init_def Disconnect_def newCsv_def csvExport_def session_def job_def job_rows_def
  Headers_def Slice_def stats_def plain_bytes_def FormatInt_def itoa_def FormatUint.simps
  digit_char_def zero_hostStat_def Let_def

lemmas example_defs =
  E_ok_def E_lost_def E_refused_def E_preset_def endpoint_def clientA_def clientB_def clientB_lost_def
  host1_def row1_def sched_ba_def sched_lost_def sched_refused_def

lemma run_ba: "\<exists>s. run E_ok sched_ba (main_start E_ok) = Some s \<and> final_ba s"
  by (simp add: model_defs example_defs final_ba_def)



lemma run_lost: "\<exists>s. run E_lost sched_lost (main_start E_lost) = Some s \<and> final_lost s"
  by (simp add: model_defs example_defs final_lost_def)

lemma session_lost: "session E_lost (job E_lost 1) = Exits 1"
  by (simp add: model_defs example_defs)






text \<open>A host whose \<^verbatim>\<open>Parent\<close> is nil: the loop of \<^verbatim>\<open>Init\<close> panics before any row is built.\<close>

lemma Init_hosts_nil_Parent:
  "Init_hosts plain_bytes ''b'' [host1\<lparr>Parent_nil := True\<rparr>] []
     = (Exits 2, [], [Panic, Call ''Destroy'' ''b''])"
  by (simp add: host1_def)





section \<open>The barrier, and sessions that end the process\<close>

text \<open>
  In every state a run reaches, no job has signalled more than once, and a job that has
  signalled is one whose session returned: its connection failed, or it went through
  \<^verbatim>\<open>Init\<close> and \<^verbatim>\<open>Disconnect\<close>. When \<^verbatim>\<open>main\<close> is in its export loop or past it, every job has
  signalled exactly once and \<^verbatim>\<open>main\<close> has taken all these tokens from \<^verbatim>\<open>done\<close>: it received
  exactly as many as there are vCenters.
\<close>

lemma barrier_count:
  assumes "run E sched (main_start E) = Some s"
  shows "distinct (signalled s) \<and> set (signalled s) \<subseteq> {0..<vcenterCount E}
         \<and> (\<forall>j \<in> set (signalled s). \<exists>v. session E (job E j) = Returns v)
         \<and> (exporting (main_pc s) \<longrightarrow>
              mset (signalled s) = mset [0..<vcenterCount E] \<and> ch_done s = 0)"
proof -
  note i = inv_run [OF assms]
  from inv_distinct [OF i] have 1: "distinct (signalled s)" by (simp add: all_jobs_def)
  from inv_set [OF i] have 2: "set (signalled s) \<subseteq> {0..<vcenterCount E}"
    by (auto simp: all_jobs_def)
  from invD(7) [OF i] have 3: "\<forall>j \<in> set (signalled s). \<exists>v. session E (job E j) = Returns v"
    by blast
  from exporting_barrier(2,3) [OF i]
  have 4: "exporting (main_pc s) \<longrightarrow>
              mset (signalled s) = mset [0..<vcenterCount E] \<and> ch_done s = 0"
    by blast
  from 1 2 3 4 show ?thesis by blast
qed

text \<open>Two vCenters that both answer, the second signalling first.\<close>

lemma barrier_count_ba:
  "\<exists>s. run E_ok sched_ba (main_start E_ok) = Some s \<and> exporting (main_pc s)
       \<and> signalled s = [1, 0] \<and> mset (signalled s) = mset [0..<vcenterCount E_ok]
       \<and> ch_done s = 0
       \<and> (\<exists>v. session E_ok (job E_ok 1) = Returns v)"
proof -
  from run_ba obtain s where r: "run E_ok sched_ba (main_start E_ok) = Some s"
    and f: "final_ba s" by blast
  from r f have s: "run E_ok sched_ba (main_start E_ok) = Some s"
    "main_pc s = Finished" "signalled s = [1, 0]" by (simp_all add: final_ba_def)
  from s(2) have e: "exporting (main_pc s)" by simp
  from barrier_count [OF s(1)] e
  have m: "mset (signalled s) = mset [0..<vcenterCount E_ok]" "ch_done s = 0"
    and v: "\<forall>j \<in> set (signalled s). \<exists>v. session E_ok (job E_ok j) = Returns v"
    by simp_all
  from v s(3) have x: "\<exists>v. session E_ok (job E_ok 1) = Returns v" by simp
  show ?thesis by (rule exI [of _ s]) (simp only: s(1) e s(3) [symmetric] m x simp_thms)
qed

text \<open>
  When the session of the job \<open>j\<close> ends the process (it connected, and \<^verbatim>\<open>Init\<close> called
  \<^verbatim>\<open>log.Fatal\<close>, status 1, or went through a nil pointer, status 2), then in every state a
  run reaches: the job has not signalled and is neither about to disconnect nor about to
  signal, \<^verbatim>\<open>main\<close> has not begun to export, the output file is as \<^verbatim>\<open>newCsv\<close> left it, so no
  row of any vCenter is in it, and the process runs or has ended with status 1 or 2.
\<close>

lemma Init_failure_ends_process:
  assumes "run E sched (main_start E) = Some s" and "j < vcenterCount E"
    and "session E (job E j) = Exits c"
  shows "(c = 1 \<or> c = 2) \<and> j \<notin> set (signalled s) \<and> \<not> exporting (main_pc s)
         \<and> csv_file s = exported E 0
         \<and> AtDisconnect j \<notin> set (workers s) \<and> AtSignal j \<notin> set (workers s)
         \<and> (exit_status s = None \<or> exit_status s = Some 1 \<or> exit_status s = Some 2)"
proof -
  note i = inv_run [OF assms(1)]
  note x = assms(3)
  from session_Exits(1) [OF x] have 1: "c = 1 \<or> c = 2" .
  from invD(7) [OF i, of j] x have 2: "j \<notin> set (signalled s)" by auto
  from exporting_barrier(1) [OF i] assms(2) 2 have 3: "\<not> exporting (main_pc s)" by auto
  from not_exporting_file [OF i 3] have 4: "csv_file s = exported E 0" .
  from worker_at [OF i, of "AtDisconnect j"] x have 5: "AtDisconnect j \<notin> set (workers s)" by auto
  from worker_at [OF i, of "AtSignal j"] x have 6: "AtSignal j \<notin> set (workers s)" by auto
  from 3 have nf: "main_pc s \<noteq> Finished" by auto
  have 7: "exit_status s = None \<or> exit_status s = Some 1 \<or> exit_status s = Some 2"
  proof (cases "exit_status s = None")
    case False
    from inv_exitD [OF i False nf] obtain j' c'
      where e: "session E (job E j') = Exits c'" "exit_status s = Some c'" by blast
    from session_Exits(1) [OF e(1)] e(2) show ?thesis by auto
  qed simp
  from 1 2 3 4 5 6 7 show ?thesis by blast
qed

text \<open>Two vCenters, the second failing the cluster lookup of its third host.\<close>

lemma Init_failure_ends_process_lost:
  "\<exists>s. run E_lost sched_lost (main_start E_lost) = Some s
       \<and> 1 < vcenterCount E_lost \<and> session E_lost (job E_lost 1) = Exits 1
       \<and> 1 \<notin> set (signalled s) \<and> \<not> exporting (main_pc s)
       \<and> csv_file s = exported E_lost 0 \<and> exit_status s = Some 1"
proof -
  from run_lost obtain s where r: "run E_lost sched_lost (main_start E_lost) = Some s"
    and f: "final_lost s" by blast
  from r f have s: "run E_lost sched_lost (main_start E_lost) = Some s"
    "exit_status s = Some 1" by (simp_all add: final_lost_def)
  have n: "1 < vcenterCount E_lost"
    by (simp add: vcenterCount_def config_def E_lost_def E_ok_def)
  from Init_failure_ends_process [OF s(1) n session_lost]
  have c: "1 \<notin> set (signalled s)" "\<not> exporting (main_pc s)"
    "csv_file s = exported E_lost 0" by simp_all
  show ?thesis by (rule exI [of _ s]) (simp only: s n session_lost c simp_thms)
qed

section \<open>The claims\<close>

subsection \<open>The derived metrics\<close>

text \<open>
  C6. For every record \<^verbatim>\<open>Init\<close> builds, \<open>FreeCPU\<close> is \<open>TotalCPU\<close> minus the host's overall
  CPU usage, exactly: read as integers the three values satisfy the equation, since the
  64-bit product and difference of an \<^verbatim>\<open>int32\<close>, an \<^verbatim>\<open>int16\<close> and an \<^verbatim>\<open>int32\<close> cannot wrap.
\<close>

theorem FreeCPU_exact:
  "sint (FreeCPU (stats cluster_Name hs))
     = sint (TotalCPU (stats cluster_Name hs)) - sint (Summary_QuickStats_OverallCpuUsage hs)"
  by (simp add: stats_def Let_def freeCPU_sint totalCPU_sint)

text \<open>The spec's example: 2500 MHz on 8 cores is 20000, of which 5000 are used.\<close>

lemma FreeCPU_example:
  "sint (TotalCPU (stats ''prod'' host1)) = 20000 \<and> sint (FreeCPU (stats ''prod'' host1)) = 15000"
  by (simp add: stats_def host1_def)

text \<open>
  C1, as the spec states it: the record's \<open>MemorySize\<close> holds the host's total memory and
  its \<open>OverallMemoryUsage\<close> holds the host's used memory, in bytes. For a host with 8 GiB
  of which 1024 MB are used, \<open>MemorySize\<close> is 1024 and \<open>OverallMemoryUsage\<close> is 8589934592,
  which is neither the used memory in bytes nor in megabytes.
\<close>

theorem memory_fields_counterexample:
  "sint (MemorySize (stats ''prod'' host1)) \<noteq> sint (Summary_Hardware_MemorySize host1)
   \<and> sint (OverallMemoryUsage (stats ''prod'' host1))
         \<noteq> sint (Summary_QuickStats_OverallMemoryUsage host1) * 1048576
   \<and> sint (OverallMemoryUsage (stats ''prod'' host1))
         \<noteq> sint (Summary_QuickStats_OverallMemoryUsage host1)"
  by (simp add: stats_def host1_def)

text \<open>
  C1, amended. \<open>FreeMemory\<close> is the host's memory size minus its memory usage times
  \<open>1024 * 1024\<close>, in 64-bit arithmetic, and as integers when neither value is negative.
  The struct's \<open>MemorySize\<close> holds the host's memory usage in megabytes and its
  \<open>OverallMemoryUsage\<close> holds the host's memory size in bytes; in the row \<^verbatim>\<open>Slice\<close> makes of
  the record, the column under the header \<open>MemorySize\<close> renders the host's memory size and
  the column under the header \<open>OverallMemoryUsage\<close> renders the usage in bytes.
\<close>

theorem memory_fields:
  "FreeMemory (stats cluster_Name hs)
     = Summary_Hardware_MemorySize hs
         - scast (Summary_QuickStats_OverallMemoryUsage hs) * 1024 * 1024
   \<and> MemorySize (stats cluster_Name hs) = Summary_QuickStats_OverallMemoryUsage hs
   \<and> OverallMemoryUsage (stats cluster_Name hs) = Summary_Hardware_MemorySize hs
   \<and> Headers (stats cluster_Name hs) ! 13 = ''MemorySize''
   \<and> Slice bs (stats cluster_Name hs) ! 13 = bs (Summary_Hardware_MemorySize hs)
   \<and> Headers (stats cluster_Name hs) ! 12 = ''OverallMemoryUsage''
   \<and> Slice bs (stats cluster_Name hs) ! 12
         = bs (scast (Summary_QuickStats_OverallMemoryUsage hs) * 1024 * 1024)
   \<and> Headers (stats cluster_Name hs) ! 14 = ''FreeMemory''
   \<and> Slice bs (stats cluster_Name hs) ! 14 = bs (FreeMemory (stats cluster_Name hs))
   \<and> (0 \<le> sint (Summary_Hardware_MemorySize hs)
          \<and> 0 \<le> sint (Summary_QuickStats_OverallMemoryUsage hs) \<longrightarrow>
        sint (FreeMemory (stats cluster_Name hs))
          = sint (Summary_Hardware_MemorySize hs)
              - sint (Summary_QuickStats_OverallMemoryUsage hs) * 1048576)"
proof -
  have "0 \<le> sint (Summary_Hardware_MemorySize hs)
          \<and> 0 \<le> sint (Summary_QuickStats_OverallMemoryUsage hs) \<longrightarrow>
        sint (Summary_Hardware_MemorySize hs
                - scast (Summary_QuickStats_OverallMemoryUsage hs) * 1024 * 1024)
          = sint (Summary_Hardware_MemorySize hs)
              - sint (Summary_QuickStats_OverallMemoryUsage hs) * 1048576"
    using freeMemory_sint by blast
  moreover have "FreeMemory (stats cluster_Name hs)
     = Summary_Hardware_MemorySize hs
         - scast (Summary_QuickStats_OverallMemoryUsage hs) * 1024 * 1024"
    by (simp add: stats_def Let_def)
  ultimately show ?thesis
    by (simp only: Headers_def Slice_def) (simp add: stats_def Let_def)
qed


theorem memory_fields_witness:
  "0 \<le> sint (Summary_Hardware_MemorySize host1)
   \<and> 0 \<le> sint (Summary_QuickStats_OverallMemoryUsage host1)
   \<and> sint (FreeMemory (stats ''prod'' host1)) = 7516192768
   \<and> Slice plain_bytes (stats ''prod'' host1) ! 13 = ''8589934592B''
   \<and> Slice plain_bytes (stats ''prod'' host1) ! 12 = ''1073741824B''"
  using memory_fields [of "''prod''" host1 plain_bytes]
  by (simp add: host1_def plain_bytes_def FormatInt_def itoa_def FormatUint.simps digit_char_def)

subsection \<open>Headers and rows\<close>

text \<open>
  C9, as the spec states it: the \<open>i\<close>-th header names the field whose rendered value is
  at position \<open>i\<close> of the row. For a record with \<open>OverallMemoryUsage = 5\<close> and
  \<open>MemorySize = 0\<close>, the header at position 12 is \<open>OverallMemoryUsage\<close>, whose value renders
  as \<open>5B\<close>, and the row has \<open>0B\<close> there.
\<close>

theorem schema_counterexample:
  "rendered_field plain_bytes swapped_sample (Headers swapped_sample ! 12)
     \<noteq> Some (Slice plain_bytes swapped_sample ! 12)
   \<and> Headers swapped_sample ! 12 = ''OverallMemoryUsage''
   \<and> rendered_field plain_bytes swapped_sample ''OverallMemoryUsage'' = Some ''5B''
   \<and> Slice plain_bytes swapped_sample ! 12 = ''0B''"
  by (simp add: rendered_field_def Headers_def Slice_def swapped_sample_def plain_bytes_def
      FormatInt_def itoa_def FormatUint.simps digit_char_def)

text \<open>
  C9, amended. \<^verbatim>\<open>Headers\<close> and \<^verbatim>\<open>Slice\<close> both have 15 entries, and the headers name the
  fields rendered in the row once the row's positions 12 and 13 are exchanged: at every
  other position the header names the field rendered there, position 12 (header
  \<open>OverallMemoryUsage\<close>) renders the field \<open>MemorySize\<close> times \<open>1024 * 1024\<close>, and position
  13 (header \<open>MemorySize\<close>) renders the field \<open>OverallMemoryUsage\<close>.
\<close>

theorem schema_amended:
  "length (Headers r) = 15 \<and> length (Slice bs r) = 15
   \<and> map (rendered_field bs r) (Headers r)
       = map Some ((Slice bs r)[12 := Slice bs r ! 13, 13 := Slice bs r ! 12])
   \<and> Slice bs r ! 12 = bs (scast (MemorySize r) * 1024 * 1024)
   \<and> Slice bs r ! 13 = bs (OverallMemoryUsage r)"
  by (simp add: Headers_def Slice_def rendered_field_def)

subsection \<open>Sessions\<close>

text \<open>
  C10. \<^verbatim>\<open>Disconnect\<close> on a \<^verbatim>\<open>VCenter\<close> whose \<^verbatim>\<open>client\<close> is nil returns nil and does nothing
  else: no call of \<^verbatim>\<open>Logout\<close>, no line printed.
\<close>

theorem Disconnect_without_session:
  "client vcenter = None \<Longrightarrow> Disconnect vcenter = (None, [])"
  by (simp add: Disconnect_def)

theorem Disconnect_without_session_witness:
  "client (endpoint ''a'') = None \<and> Disconnect (endpoint ''a'') = (None, [])"
proof -
  have c: "client (endpoint ''a'') = None" by (simp add: endpoint_def)
  from c Disconnect_without_session [OF c] show ?thesis by simp
qed

subsection \<open>The completion barrier and the merge\<close>



text \<open>
  C4. The spec: \<^verbatim>\<open>main\<close> receives exactly as many completion signals as there are
  endpoints before it begins to export, and every dispatched job signals exactly once,
  whatever its outcome. The barrier is as stated (\<open>barrier_count\<close>). The code, at two
  vCenters of which the second fails the cluster lookup of its third host: \<^verbatim>\<open>log.Fatal\<close>
  ends the process with status 1 while the worker of job 1 is inside \<^verbatim>\<open>Init\<close>, before its
  \<^verbatim>\<open>done <- true\<close>. Job 1 was dispatched, has ended, and never signalled; \<^verbatim>\<open>main\<close> has one
  token of two and waits for the second; no thread can move.
\<close>

theorem failed_job_never_signals:
  "\<exists>s. run E_lost sched_lost (main_start E_lost) = Some s \<and> exit_status s = Some 1
       \<and> vcenterCount E_lost = 2 \<and> session E_lost (job E_lost 1) = Exits 1
       \<and> workers s ! 1 = AtInit 1 \<and> 1 \<notin> set (signalled s) \<and> main_pc s = Wait 1
       \<and> step E_lost (Worker_thread 1) s = None \<and> step E_lost (Worker_thread 0) s = None
       \<and> step E_lost Main s = None"
proof -
  from run_lost obtain s where r: "run E_lost sched_lost (main_start E_lost) = Some s"
    and f: "final_lost s" by blast
  from f have s: "exit_status s = Some 1" "workers s ! 1 = AtInit 1" "1 \<notin> set (signalled s)"
    "main_pc s = Wait 1"
    by (simp_all add: final_lost_def)
  have n: "vcenterCount E_lost = 2"
    by (simp add: vcenterCount_def config_def E_lost_def E_ok_def)
  from s(1) have t: "step E_lost (Worker_thread 1) s = None"
    "step E_lost (Worker_thread 0) s = None" "step E_lost Main s = None"
    by (simp_all add: step_def)
  show ?thesis by (rule exI [of _ s]) (simp only: r s n t session_lost simp_thms)
qed

subsection \<open>Failures of one vCenter\<close>

text \<open>
  C3. The spec: when the collection of one endpoint fails, its partial rows are discarded,
  the session goes on to disconnect, nothing is retried and the other endpoints and their
  rows are not affected. The code, at two vCenters, the first done and signalled, the
  second failing the cluster lookup of its third host: \<^verbatim>\<open>log.Fatal\<close> ends the process with
  status 1 inside \<^verbatim>\<open>Init\<close>. The session of \<open>b\<close> never disconnects (no \<^verbatim>\<open>Logout\<close>), its two
  rows are still in \<^verbatim>\<open>Data\<close>, \<^verbatim>\<open>main\<close> never exports, and the file holds the header only,
  although the first vCenter had collected its row. Nothing was retried: \<open>b\<close> was connected
  to once and its hosts were retrieved once.
\<close>

theorem collection_failure_kills_run:
  "\<exists>s. run E_lost sched_lost (main_start E_lost) = Some s \<and> exit_status s = Some 1
       \<and> session E_lost (job E_lost 1) = Exits 1
       \<and> signalled s = [0] \<and> map Data (vcs s) = [[row1 ''esx1''], [row1 ''esx2'', row1 ''esx3'']]
       \<and> csv_file s = Some [Headers zero_hostStat]
       \<and> Call ''Logout'' ''b'' \<notin> set (out s)
       \<and> length (filter (\<lambda>e. e = Call ''NewClient'' ''b'') (out s)) = 1
       \<and> length (filter (\<lambda>e. e = Call ''Retrieve'' ''b'') (out s)) = 1
       \<and> step E_lost Main s = None"
proof -
  from run_lost obtain s where r: "run E_lost sched_lost (main_start E_lost) = Some s"
    and f: "final_lost s" by blast
  from f have s: "exit_status s = Some 1" "signalled s = [0]"
    "map Data (vcs s) = [[row1 ''esx1''], [row1 ''esx2'', row1 ''esx3'']]"
    "csv_file s = Some [Headers zero_hostStat]" "Call ''Logout'' ''b'' \<notin> set (out s)"
    "length (filter (\<lambda>e. e = Call ''NewClient'' ''b'') (out s)) = 1"
    "length (filter (\<lambda>e. e = Call ''Retrieve'' ''b'') (out s)) = 1"
    by (simp_all add: final_lost_def)
  from s(1) have t: "step E_lost Main s = None" by (simp add: step_def)
  show ?thesis by (rule exI [of _ s]) (simp only: r s t session_lost simp_thms)
qed




subsection \<open>Errors of the sink and of the configuration\<close>

text \<open>
  C7. The spec has a failure of the sink surfaced as fatal for the run. With an output
  path that cannot be written, \<^verbatim>\<open>newCsv\<close> and \<^verbatim>\<open>csvExport\<close> return the error and \<^verbatim>\<open>main\<close>
  drops it: the run goes through every vCenter, prints that the results were saved and
  ends with status 0; no line mentions the error and no file exists.
\<close>

theorem sink_error_dropped:
  "\<exists>s. run E_readonly sched_ba (main_start E_readonly) = Some s
       \<and> main_pc s = Finished \<and> exit_status s = Some 0 \<and> csv_file s = None
       \<and> last (out s) = Println [''Main : Results saved to'', ''out.csv'']
       \<and> \<not> list_ex (mentions ''open out.csv: permission denied'') (out s)
       \<and> fst (newCsv E_readonly (Headers zero_hostStat) ''out.csv'' None)
           = Some ''open out.csv: permission denied''
       \<and> fst (csvExport E_readonly 0 (job_rows E_readonly 0) ''out.csv'' None)
           = Some ''open out.csv: permission denied''"
  by (simp add: model_defs example_defs E_readonly_def mentions_def)

text \<open>
  C8. The spec has a configuration that cannot be read abort the run with a non-zero
  status before any connection. With no \<^verbatim>\<open>config.json\<close>, \<^verbatim>\<open>main\<close> prints the two messages,
  goes on with the empty configuration and ends with status 0.
\<close>

theorem config_error_ignored:
  "\<exists>s. run E_noconfig sched_main_only (main_start E_noconfig) = Some s
       \<and> main_pc s = Finished \<and> exit_status s = Some 0
       \<and> out s = [Println [''Could not open configuration file'', ''config.json''],
                  Println [''Could not decode configuration file'', ''config.json''],
                  Println [''Main :'', ''0'', ''vcenters to collect data from in config''],
                  Println [''Main : Submitting job to workers''],
                  Println [''Main : merging results...''],
                  Println [''Main : Results saved to'', []]]"
  by (simp add: model_defs example_defs E_noconfig_def sched_main_only_def)

text \<open>
  When the decoder fails on one field and has filled in the vCenters, the run connects to
  them.
\<close>

lemma config_error_connects:
  "\<exists>s. run E_badconfig sched_first_connect (main_start E_badconfig) = Some s
       \<and> Println [''Could not decode configuration file'', ''config.json''] \<in> set (out s)
       \<and> Call ''NewClient'' ''a'' \<in> set (out s)"
  by (simp add: model_defs example_defs E_badconfig_def sched_first_connect_def)

end
